theory Spec2Isabelle
  imports Main "HOL-Library.AList" "HOL-Library.Product_Lexorder" "HOL-Library.Multiset"
begin

section \<open>Calendar values of the Python standard library\<close>

text \<open>
  The birthday commands work on \<^verbatim>\<open>datetime.datetime\<close> values. A value is a record of
  its seven fields; Python integers are unbounded, so every field is an \<^typ>\<open>int\<close>.
  The constructor and \<^verbatim>\<open>replace\<close> raise \<^verbatim>\<open>ValueError\<close> on a date that does not
  exist, which is a branch of the model.
\<close>

datatype error = ValueError | TimeoutError | FormatError

record datetime =
  year :: int
  month :: int
  day :: int
  hour :: int
  minute :: int
  second :: int
  microsecond :: int

definition is_leap :: "int \<Rightarrow> bool" where
  "is_leap y = (y mod 4 = 0 \<and> (y mod 100 \<noteq> 0 \<or> y mod 400 = 0))"

definition days_in_month :: "int \<Rightarrow> int \<Rightarrow> int" where
  "days_in_month y m =
     (if m = 2 then (if is_leap y then 29 else 28)
      else if m = 4 \<or> m = 6 \<or> m = 9 \<or> m = 11 then 30 else 31)"

definition days_before_year :: "int \<Rightarrow> int" where
  "days_before_year y = (y - 1) * 365 + (y - 1) div 4 - (y - 1) div 100 + (y - 1) div 400"

definition days_before_month :: "int \<Rightarrow> int \<Rightarrow> int" where
  "days_before_month y m =
     [0, 31, 59, 90, 120, 151, 181, 212, 243, 273, 304, 334] ! nat (m - 1)
       + (if m > 2 \<and> is_leap y then 1 else 0)"

definition toordinal :: "datetime \<Rightarrow> int" where
  "toordinal dt = days_before_year (year dt) + days_before_month (year dt) (month dt) + day dt"

text \<open>The field checks of the constructor: year 1 to 9999, a month, a day of that month.\<close>

definition check_date_fields :: "int \<Rightarrow> int \<Rightarrow> int \<Rightarrow> bool" where
  "check_date_fields y m d =
     (1 \<le> y \<and> y \<le> 9999 \<and> 1 \<le> m \<and> m \<le> 12 \<and> 1 \<le> d \<and> d \<le> days_in_month y m)"

text \<open>\<^verbatim>\<open>datetime.datetime(year=y, month=m, day=d)\<close>: the time of day is midnight.\<close>

definition datetime_ymd :: "int \<Rightarrow> int \<Rightarrow> int \<Rightarrow> error + datetime" where
  "datetime_ymd y m d =
     (if check_date_fields y m d
      then Inr \<lparr>year = y, month = m, day = d, hour = 0, minute = 0, second = 0, microsecond = 0\<rparr>
      else Inl ValueError)"

text \<open>\<^verbatim>\<open>dt.replace(year=y)\<close> builds a new value and so checks the date again.\<close>

definition replace_year :: "datetime \<Rightarrow> int \<Rightarrow> error + datetime" where
  "replace_year dt y =
     (if check_date_fields y (month dt) (day dt) then Inr (dt\<lparr>year := y\<rparr>) else Inl ValueError)"

text \<open>\<^verbatim>\<open>dt.replace(hour=0, minute=0, second=0, microsecond=0)\<close> cannot fail.\<close>

definition replace_midnight :: "datetime \<Rightarrow> datetime" where
  "replace_midnight dt = dt\<lparr>hour := 0, minute := 0, second := 0, microsecond := 0\<rparr>"

text \<open>Comparison of two naive values is the comparison of their field tuples.\<close>

definition dt_tuple :: "datetime \<Rightarrow> int \<times> int \<times> int \<times> int \<times> int \<times> int \<times> int" where
  "dt_tuple dt = (year dt, month dt, day dt, hour dt, minute dt, second dt, microsecond dt)"

definition dt_gt :: "datetime \<Rightarrow> datetime \<Rightarrow> bool" where
  "dt_gt a b = (dt_tuple b < dt_tuple a)"

text \<open>
  \<^verbatim>\<open>a - b\<close> is a \<^verbatim>\<open>timedelta\<close>, kept here as its exact number of microseconds;
  \<^verbatim>\<open>.days\<close> is the floor of that number of days, and \<^verbatim>\<open>int(td.total_seconds())\<close>
  drops the fraction of a second towards zero.
\<close>

definition seconds_of_day :: "datetime \<Rightarrow> int" where
  "seconds_of_day dt = hour dt * 3600 + minute dt * 60 + second dt"

definition dt_sub :: "datetime \<Rightarrow> datetime \<Rightarrow> int" where
  "dt_sub a b =
     ((toordinal a - toordinal b) * 86400 + (seconds_of_day a - seconds_of_day b)) * 1000000
       + (microsecond a - microsecond b)"

definition td_days :: "int \<Rightarrow> int" where
  "td_days td = td div 86400000000"

definition int_total_seconds :: "int \<Rightarrow> int" where
  "int_total_seconds td = (if 0 \<le> td then td div 1000000 else - ((- td) div 1000000))"

section \<open>The birthday cog: stored data and replies\<close>

text \<open>
  A member's stored birthday is the dictionary with the keys \<^verbatim>\<open>year\<close>, \<^verbatim>\<open>month\<close> and
  \<^verbatim>\<open>day\<close>; the year is \<^verbatim>\<open>None\<close> when the member did not disclose it. The fields
  carry a prefix because the names are taken by \<^typ>\<open>datetime\<close>.
\<close>

record bday =
  bday_year :: "int option"
  bday_month :: int
  bday_day :: int

text \<open>
  One line of the listing is \<^verbatim>\<open>member.mention\<close> followed by nothing, by
  \<^verbatim>\<open>" turns N"\<close> or by \<^verbatim>\<open>" will turn N"\<close>. The mention is determined by the
  member, so a line is the member's id with the text that follows.
\<close>

datatype age_text = NoAge | Turns int | WillTurn int

type_synonym line = "nat \<times> age_text"

text \<open>The name of an embed field: \<^verbatim>\<open>"Today"\<close>, or \<^verbatim>\<open>strftime("%B %d")\<close> of a date.\<close>

datatype field_name = Today | MonthDay int int

text \<open>
  Everything \<^verbatim>\<open>ctx.send\<close> is called with by the commands modelled here. An embed is
  its description flag and its fields; each field keeps the key of
  \<^verbatim>\<open>sorted_parsed_bdays\<close> it was made from beside its name and value.
\<close>

datatype message =
    DaysRange
  | NoUpcoming
  | Embed bool "(int \<times> field_name option \<times> line list) list"
  | TooEarly int
  | ForceTooEarly int
  | BornInFuture
  | BirthdaySet int int "int option"
  | ForceBirthdaySet nat int int "int option"
  | MsgTooLong
  | MsgSet
  | MsgSetYear
  | Preview string
  | AllSet

record guild_conf =
  time_utc_s :: "int option"
  message_w_year :: "string option"
  message_wo_year :: "string option"
  channel_id :: "nat option"
  role_id :: "nat option"
  setup_state :: int

text \<open>
  What a command can read and change: the stored birthdays of the guild in the order of the
  dictionary \<^verbatim>\<open>all_members\<close> returns, the members \<^verbatim>\<open>ctx.guild.get_member\<close> finds,
  the guild's settings, and the messages sent so far.
\<close>

record bot =
  all_members :: "(nat \<times> bday) list"
  guild_members :: "nat set"
  conf :: guild_conf
  sent :: "message list"

definition send :: "message \<Rightarrow> bot \<Rightarrow> bot" where
  "send m s = s\<lparr>sent := sent s @ [m]\<rparr>"

section \<open>\<^verbatim>\<open>BirthdayCommands.upcoming\<close>\<close>

text \<open>\<^verbatim>\<open>parsed_bdays[k].append(x)\<close> on a \<^verbatim>\<open>defaultdict(list)\<close>.\<close>

definition append_bday :: "int \<Rightarrow> line \<Rightarrow> (int \<times> line list) list \<Rightarrow> (int \<times> line list) list" where
  "append_bday k x parsed_bdays =
     AList.update k ((case map_of parsed_bdays k of None \<Rightarrow> [] | Some xs \<Rightarrow> xs) @ [x]) parsed_bdays"

text \<open>
  The loop over \<^verbatim>\<open>all_birthdays.items()\<close>. Both \<^verbatim>\<open>replace\<close> calls are evaluated
  before either result is used, so an exception of either ends the command.
\<close>

fun upcoming_loop ::
  "datetime \<Rightarrow> int \<Rightarrow> nat set \<Rightarrow> (nat \<times> bday) list \<Rightarrow>
   (int \<times> line list) list \<Rightarrow> (int \<rightharpoonup> field_name) \<Rightarrow>
   error + ((int \<times> line list) list \<times> (int \<rightharpoonup> field_name))" where
  "upcoming_loop today_dt days guild [] parsed_bdays number_day_mapping =
     Inr (parsed_bdays, number_day_mapping)"
| "upcoming_loop today_dt days guild ((member_id, member_data) # rest)
       parsed_bdays number_day_mapping =
     (if member_id \<notin> guild
      then upcoming_loop today_dt days guild rest parsed_bdays number_day_mapping
      else
        case datetime_ymd
               (case bday_year member_data of None \<Rightarrow> 1 | Some y \<Rightarrow> if y = 0 then 1 else y)
               (bday_month member_data) (bday_day member_data) of
          Inl e \<Rightarrow> Inl e
        | Inr birthday_dt \<Rightarrow>
            if month today_dt = month birthday_dt \<and> day today_dt = day birthday_dt
            then upcoming_loop today_dt days guild rest
                   (append_bday 0
                      (member_id,
                       if year birthday_dt = 1 then NoAge
                       else Turns (year today_dt - year birthday_dt))
                      parsed_bdays)
                   (number_day_mapping(0 \<mapsto> Today))
            else
              case replace_year birthday_dt (year today_dt) of
                Inl e \<Rightarrow> Inl e
              | Inr this_year_bday \<Rightarrow>
                  case replace_year birthday_dt (year today_dt + 1) of
                    Inl e \<Rightarrow> Inl e
                  | Inr next_year_bday \<Rightarrow>
                      let next_birthday_dt =
                            (if dt_gt this_year_bday today_dt then this_year_bday
                             else next_year_bday);
                          diff = dt_sub next_birthday_dt today_dt
                      in if td_days diff > days
                         then upcoming_loop today_dt days guild rest
                                parsed_bdays number_day_mapping
                         else upcoming_loop today_dt days guild rest
                                (append_bday (td_days diff)
                                   (member_id,
                                    if year birthday_dt = 1 then NoAge
                                    else WillTurn (year today_dt - year birthday_dt))
                                   parsed_bdays)
                                (number_day_mapping(td_days diff \<mapsto>
                                   MonthDay (month next_birthday_dt) (day next_birthday_dt))))"

text \<open>
  The command, given the value of \<^verbatim>\<open>utcnow()\<close>. It returns the state it leaves and
  the exception that ended it, if one did.
\<close>

definition upcoming :: "int \<Rightarrow> datetime \<Rightarrow> bot \<Rightarrow> bot \<times> error option" where
  "upcoming days utcnow s =
     (if days < 1 \<or> days > 365 then (send DaysRange s, None)
      else
        let today_dt = replace_midnight utcnow in
        case upcoming_loop today_dt days (guild_members s) (all_members s) [] Map.empty of
          Inl e \<Rightarrow> (s, Some e)
        | Inr (parsed_bdays, number_day_mapping) \<Rightarrow>
            if length parsed_bdays = 0 then (send NoUpcoming s, None)
            else
              (send
                 (Embed (length parsed_bdays > 25)
                    (map (\<lambda>(d, members). (d, number_day_mapping d, members))
                       (sort_key fst parsed_bdays)))
                 s,
               None))"

section \<open>\<^verbatim>\<open>BirthdayCommands.set\<close> and \<^verbatim>\<open>BirthdayAdminCommands.force\<close>\<close>

text \<open>
  The argument \<^verbatim>\<open>birthday\<close> is the value the converter made of the user's text; its
  year is 1 when the text had no year. \<^verbatim>\<open>MIN_BDAY_YEAR\<close> is a constant of a module
  that is not among the sources, so it is a parameter. The block
  \<^verbatim>\<open>async with self.config.member(m).birthday() as bday\<close> writes the member's
  dictionary back when it ends.
\<close>

definition bday_of :: "datetime \<Rightarrow> bday" where
  "bday_of birthday =
     \<lparr>bday_year = (if year birthday \<noteq> 1 then Some (year birthday) else None),
      bday_month = month birthday, bday_day = day birthday\<rparr>"

definition set_cmd :: "int \<Rightarrow> nat \<Rightarrow> datetime \<Rightarrow> datetime \<Rightarrow> bot \<Rightarrow> bot \<times> error option" where
  "set_cmd MIN_BDAY_YEAR author birthday utcnow s =
     (if year birthday \<noteq> 1 \<and> year birthday < MIN_BDAY_YEAR
      then (send (TooEarly MIN_BDAY_YEAR) s, None)
      else if dt_gt birthday utcnow then (send BornInFuture s, None)
      else
        (send (BirthdaySet (month birthday) (day birthday)
                 (if year birthday = 1 then None else Some (year birthday)))
           (s\<lparr>all_members := AList.update author (bday_of birthday) (all_members s)\<rparr>),
         None))"

definition force :: "int \<Rightarrow> nat \<Rightarrow> datetime \<Rightarrow> datetime \<Rightarrow> bot \<Rightarrow> bot \<times> error option" where
  "force MIN_BDAY_YEAR user birthday utcnow s =
     (if year birthday \<noteq> 1 \<and> year birthday < MIN_BDAY_YEAR
      then (send (ForceTooEarly MIN_BDAY_YEAR) s, None)
      else if dt_gt birthday utcnow then (send BornInFuture s, None)
      else
        (send (ForceBirthdaySet user (month birthday) (day birthday)
                 (if year birthday = 1 then None else Some (year birthday)))
           (s\<lparr>all_members := AList.update user (bday_of birthday) (all_members s)\<rparr>),
         None))"

section \<open>The time of day: \<^verbatim>\<open>interactive\<close> and \<^verbatim>\<open>time\<close>\<close>

text \<open>
  \<^verbatim>\<open>replace(year=1, month=1, day=1, ...)\<close> names a date that exists, so it cannot
  fail. Both operands of the subtraction carry the same zone (UTC, or none), so the
  difference is that of the fields.
\<close>

definition replace_ymd_1 :: "datetime \<Rightarrow> datetime" where
  "replace_ymd_1 dt = dt\<lparr>year := 1, month := 1, day := 1\<rparr>"

definition midnight_of :: "datetime \<Rightarrow> datetime" where
  "midnight_of now = replace_midnight (replace_ymd_1 now)"

text \<open>
  The end of \<^verbatim>\<open>interactive\<close>, from the parsed answer to the last question on: the
  questions before it only collect the four other values. \<^verbatim>\<open>ret_time\<close> is
  \<^verbatim>\<open>time_parser(ret.content)\<close>.
\<close>

definition interactive_finish ::
  "datetime \<Rightarrow> datetime \<Rightarrow> string \<Rightarrow> string \<Rightarrow> nat \<Rightarrow> nat \<Rightarrow> bot \<Rightarrow> bot" where
  "interactive_finish ret_time now msg_w_year msg_wo_year channel role s =
     (let full_time = replace_ymd_1 ret_time;
          midnight = midnight_of now;
          t = int_total_seconds (dt_sub full_time midnight)
      in send AllSet
           (s\<lparr>conf := \<lparr>time_utc_s = Some t, message_w_year = Some msg_w_year,
                        message_wo_year = Some msg_wo_year, channel_id = Some channel,
                        role_id = Some role, setup_state = 5\<rparr>\<rparr>))"

text \<open>
  The \<^verbatim>\<open>time\<close> command up to the end of its configuration block; \<^verbatim>\<open>time\<close> is
  the value of a converter that is not among the sources. The reply that follows does not
  touch the configuration.
\<close>

definition time_cmd :: "datetime \<Rightarrow> datetime \<Rightarrow> bot \<Rightarrow> bot" where
  "time_cmd time utcnow s =
     (let midnight = midnight_of utcnow;
          t = int_total_seconds (dt_sub time midnight);
          old = time_utc_s (conf s)
      in s\<lparr>conf := (conf s)\<lparr>time_utc_s := Some t,
                                setup_state := (if old = None then setup_state (conf s) + 1
                                                else setup_state (conf s))\<rparr>\<rparr>)"

section \<open>\<^verbatim>\<open>msgwithoutyear\<close> and \<^verbatim>\<open>msgwithyear\<close>\<close>

text \<open>
  \<^verbatim>\<open>MAX_BDAY_MSG_LEN\<close> and \<^verbatim>\<open>format_bday_message\<close> belong to modules that are not
  among the sources: both are parameters, and the formatter may raise. Neither command
  returns after the length check.
\<close>

definition msgwithoutyear ::
  "nat \<Rightarrow> (string \<Rightarrow> nat \<Rightarrow> int option \<Rightarrow> error + string) \<Rightarrow> nat \<Rightarrow> string \<Rightarrow> bot \<Rightarrow>
   bot \<times> error option" where
  "msgwithoutyear MAX_BDAY_MSG_LEN format_bday_message author msg s =
     (let s1 = (if length msg > MAX_BDAY_MSG_LEN then send MsgTooLong s else s);
          c = conf s1;
          c1 = (if message_wo_year c = None then c\<lparr>setup_state := setup_state c + 1\<rparr> else c);
          s2 = s1\<lparr>conf := c1\<lparr>message_wo_year := Some msg\<rparr>\<rparr>;
          s3 = send MsgSet s2
      in case format_bday_message msg author None of
           Inl e \<Rightarrow> (s3, Some e)
         | Inr text \<Rightarrow> (send (Preview text) s3, None))"

definition msgwithyear ::
  "nat \<Rightarrow> (string \<Rightarrow> nat \<Rightarrow> int option \<Rightarrow> error + string) \<Rightarrow> nat \<Rightarrow> string \<Rightarrow> bot \<Rightarrow>
   bot \<times> error option" where
  "msgwithyear MAX_BDAY_MSG_LEN format_bday_message author msg s =
     (let s1 = (if length msg > MAX_BDAY_MSG_LEN then send MsgTooLong s else s);
          c = conf s1;
          c1 = (if message_w_year c = None then c\<lparr>setup_state := setup_state c + 1\<rparr> else c);
          s2 = s1\<lparr>conf := c1\<lparr>message_w_year := Some msg\<rparr>\<rparr>;
          s3 = send MsgSetYear s2
      in case format_bday_message msg author (Some 20) of
           Inl e \<Rightarrow> (s3, Some e)
         | Inr text \<Rightarrow> (send (Preview text) s3, None))"

section \<open>\<^verbatim>\<open>wait_for_press\<close> of the button predicates\<close>

text \<open>
  \<^verbatim>\<open>ref\<close> is any value, \<^verbatim>\<open>None\<close> included. What the function does to the world
  is the list of its steps: a view made, a button added, a message sent. The world's side
  is the list of polling intervals that pass before the timeout, each with the
  interactions (user, index of the button) delivered in it.
\<close>

record 'r PredItem =
  ref :: "'r option"
  style :: nat
  label :: string
  row :: "int option"

text \<open>
  A view of the button library keeps, beside its children, the width used in each of its
  five rows.
\<close>

record 'r PredView =
  author_id :: nat
  children :: "'r PredItem list"
  weights :: "nat list"
  view_ref :: "'r option"
  stopped :: bool

datatype 'r step = ViewMade nat | ButtonAdded "'r PredItem" | MessageSent | NoPermission nat

text \<open>
  \<^verbatim>\<open>_PredButton(i.ref, i.style, i.label, i.row)\<close>: the constructor of the library's
  button sets the row, and the library raises \<^verbatim>\<open>ValueError\<close> for a row that is
  negative or not below 5.
\<close>

definition new_button :: "'r PredItem \<Rightarrow> error + 'r PredItem" where
  "new_button i =
     (case row i of
        None \<Rightarrow> Inr i
      | Some r \<Rightarrow> if 5 > r \<and> r \<ge> 0 then Inr i else Inl ValueError)"

text \<open>
  \<^verbatim>\<open>view.add_item(button)\<close> in the library: \<^verbatim>\<open>ValueError\<close> when the view has
  25 children already; a button with a row is put there unless the row would be wider than
  5; a button without one goes to the first row with room, and \<^verbatim>\<open>ValueError\<close> is
  raised when there is none. A button is one unit wide.
\<close>

fun find_open_space :: "nat list \<Rightarrow> nat option" where
  "find_open_space [] = None"
| "find_open_space (w # ws) =
     (if w + 1 \<le> 5 then Some 0 else map_option Suc (find_open_space ws))"

definition add_item :: "'r PredView \<Rightarrow> 'r PredItem \<Rightarrow> error + 'r PredView" where
  "add_item view item =
     (if length (children view) \<ge> 25 then Inl ValueError
      else
        case row item of
          Some r \<Rightarrow>
            (let total = weights view ! nat r + 1 in
             if total > 5 then Inl ValueError
             else Inr (view\<lparr>children := children view @ [item],
                            weights := (weights view)[nat r := total]\<rparr>))
        | None \<Rightarrow>
            (case find_open_space (weights view) of
               None \<Rightarrow> Inl ValueError
             | Some k \<Rightarrow>
                 Inr (view\<lparr>children := children view @ [item],
                           weights := (weights view)[k := weights view ! k + 1]\<rparr>)))"

text \<open>
  The loop of lines 103 to 105. An exception leaves the view and the steps as they are at
  that point.
\<close>

fun add_items ::
  "'r PredItem list \<Rightarrow> 'r PredView \<times> 'r step list \<Rightarrow>
   ('r PredView \<times> 'r step list) \<times> error option" where
  "add_items [] vs = (vs, None)"
| "add_items (i # rest) vs =
     (case new_button i of
        Inl e \<Rightarrow> (vs, Some e)
      | Inr button \<Rightarrow>
          (case add_item (fst vs) button of
             Inl e \<Rightarrow> (vs, Some e)
           | Inr view \<Rightarrow> add_items rest (view, snd vs @ [ButtonAdded button])))"

text \<open>
  One interaction: a stopped view takes none; \<^verbatim>\<open>interaction_check\<close> turns away
  everyone but the author; the button's callback stops the view and hands over its
  reference.
\<close>

definition interact :: "nat \<times> nat \<Rightarrow> 'r PredView \<times> 'r step list \<Rightarrow> 'r PredView \<times> 'r step list" where
  "interact i vs =
     (let (view, steps) = vs; (user, k) = i in
      if stopped view \<or> k \<ge> length (children view) then (view, steps)
      else if user = author_id view
      then (view\<lparr>stopped := True, view_ref := ref (children view ! k)\<rparr>, steps)
      else (view, steps @ [NoPermission user]))"

text \<open>\<^verbatim>\<open>asyncio.wait_for(_press_wait(view), timeout)\<close>: the loop sleeps while
  \<^verbatim>\<open>view.ref\<close> is \<^verbatim>\<open>None\<close> and is cancelled when the intervals run out.\<close>

fun press_wait ::
  "'r PredView \<times> 'r step list \<Rightarrow> (nat \<times> nat) list list \<Rightarrow>
   ('r PredView \<times> 'r step list) \<times> error option" where
  "press_wait vs [] = (vs, if view_ref (fst vs) = None then Some TimeoutError else None)"
| "press_wait vs (t # ts) =
     (if view_ref (fst vs) = None then press_wait (fold interact t vs) ts else (vs, None))"

definition wait_for_press ::
  "nat \<Rightarrow> 'r PredItem list \<Rightarrow> (nat \<times> nat) list list \<Rightarrow> 'r step list \<times> (error + 'r option)" where
  "wait_for_press ctx_author items presses =
     (if items = [] then ([], Inl ValueError)
      else
        let view = \<lparr>author_id = ctx_author, children = [], weights = [0, 0, 0, 0, 0],
                    view_ref = None, stopped = False\<rparr>;
            steps = [ViewMade ctx_author]
        in case add_items items (view, steps) of
             ((view, steps), Some e) \<Rightarrow> (steps, Inl e)
           | ((view, steps), None) \<Rightarrow>
               (case press_wait (view, steps @ [MessageSent]) presses of
                  ((view, steps), Some e) \<Rightarrow> (steps, Inl e)
                | ((view, steps), None) \<Rightarrow> (steps, Inr (view_ref view))))"

text \<open>
  Items that name no row, and a view whose rows hold exactly its children.
\<close>

definition no_rows :: "'r PredItem list \<Rightarrow> bool" where
  "no_rows items = list_all (\<lambda>i. row i = None) items"

definition room :: "'r PredView \<Rightarrow> bool" where
  "room view = (length (weights view) = 5 \<and> sum_list (weights view) = length (children view))"

section \<open>Notions used to state the properties\<close>

text \<open>
  The day of the year: \<^verbatim>\<open>_days_before_month(y, m) + d\<close>, the part of the ordinal that
  depends on month and day.
\<close>

definition year_day :: "int \<Rightarrow> int \<Rightarrow> int \<Rightarrow> int" where
  "year_day y m d = days_before_month y m + d"

text \<open>
  \<^verbatim>\<open>member_data["birthday"]["year"] or 1\<close>: the year handed to the constructor.
\<close>

definition stored_year :: "bday \<Rightarrow> int" where
  "stored_year member_data =
     (case bday_year member_data of None \<Rightarrow> 1 | Some y \<Rightarrow> if y = 0 then 1 else y)"

text \<open>
  The body of the loop for one record of a member found in the guild, as a function of
  its own: the exception it raises, or nothing when the birthday lies beyond the window, or
  the key, the text after the mention and the field name it adds. The lemma
  \<open>upcoming_loop_Cons\<close> states that the loop does exactly this with each record.
\<close>

definition parse_bday :: "datetime \<Rightarrow> int \<Rightarrow> bday \<Rightarrow> error + (int \<times> age_text \<times> field_name) option" where
  "parse_bday today_dt days member_data =
     (case datetime_ymd (stored_year member_data)
             (bday_month member_data) (bday_day member_data) of
        Inl e \<Rightarrow> Inl e
      | Inr birthday_dt \<Rightarrow>
          if month today_dt = month birthday_dt \<and> day today_dt = day birthday_dt
          then Inr (Some (0, if year birthday_dt = 1 then NoAge
                             else Turns (year today_dt - year birthday_dt), Today))
          else
            case replace_year birthday_dt (year today_dt) of
              Inl e \<Rightarrow> Inl e
            | Inr this_year_bday \<Rightarrow>
                case replace_year birthday_dt (year today_dt + 1) of
                  Inl e \<Rightarrow> Inl e
                | Inr next_year_bday \<Rightarrow>
                    let next_birthday_dt =
                          (if dt_gt this_year_bday today_dt then this_year_bday
                           else next_year_bday);
                        diff = dt_sub next_birthday_dt today_dt
                    in if td_days diff > days then Inr None
                       else Inr (Some (td_days diff,
                                       if year birthday_dt = 1 then NoAge
                                       else WillTurn (year today_dt - year birthday_dt),
                                       MonthDay (month next_birthday_dt) (day next_birthday_dt))))"

text \<open>
  A value with the time of day 00:00:00, and a value whose date the constructor accepts;
  \<^verbatim>\<open>utcnow()\<close> returns such a date.
\<close>

definition at_midnight :: "datetime \<Rightarrow> bool" where
  "at_midnight dt = (hour dt = 0 \<and> minute dt = 0 \<and> second dt = 0 \<and> microsecond dt = 0)"

definition valid_date :: "datetime \<Rightarrow> bool" where
  "valid_date dt = check_date_fields (year dt) (month dt) (day dt)"

text \<open>
  The test of line 134 on the stored month and day.
\<close>

definition is_today :: "datetime \<Rightarrow> bday \<Rightarrow> bool" where
  "is_today today_dt member_data =
     (month today_dt = bday_month member_data \<and> day today_dt = bday_day member_data)"

text \<open>
  The lines under key 0 and all the lines of \<^verbatim>\<open>parsed_bdays\<close>; the texts of the two
  branches for a record; the lines of an embed, and those of its field with key 0.
\<close>

definition today_lines :: "(int \<times> line list) list \<Rightarrow> line list" where
  "today_lines parsed_bdays = (case map_of parsed_bdays 0 of None \<Rightarrow> [] | Some xs \<Rightarrow> xs)"

definition all_lines :: "(int \<times> line list) list \<Rightarrow> line list" where
  "all_lines parsed_bdays = concat (map snd parsed_bdays)"

definition turns_text :: "datetime \<Rightarrow> bday \<Rightarrow> age_text" where
  "turns_text today_dt member_data =
     (if stored_year member_data = 1 then NoAge
      else Turns (year today_dt - stored_year member_data))"

definition field_lines :: "(int \<times> field_name option \<times> line list) list \<Rightarrow> line list" where
  "field_lines flds = concat (map (\<lambda>(d, name, members). members) flds)"

definition today_field :: "message \<Rightarrow> line list" where
  "today_field m =
     (case m of
        Embed too_many flds \<Rightarrow>
          (case map_of flds 0 of None \<Rightarrow> [] | Some (name, members) \<Rightarrow> members)
      | _ \<Rightarrow> [])"

text \<open>
  The specification's \<^verbatim>\<open>today_exact\<close>, in its words: the members of the records whose
  (month, day) equals that of today.
\<close>

definition today_exact :: "datetime \<Rightarrow> (nat \<times> bday) list \<Rightarrow> nat list" where
  "today_exact today recs = map fst (filter (\<lambda>(member_id, data). is_today today data) recs)"

text \<open>
  The fields \<^verbatim>\<open>upcoming\<close> makes of the two dictionaries.
\<close>

definition embed_of ::
  "(int \<times> line list) list \<Rightarrow> (int \<rightharpoonup> field_name) \<Rightarrow> (int \<times> field_name option \<times> line list) list" where
  "embed_of pb ndm = map (\<lambda>(d, members). (d, ndm d, members)) (sort_key fst pb)"

definition will_turn_text :: "datetime \<Rightarrow> bday \<Rightarrow> age_text" where
  "will_turn_text today_dt member_data =
     (if stored_year member_data = 1 then NoAge
      else WillTurn (year today_dt - stored_year member_data))"

text \<open>
  A stored birthday that is a date of a year without a 29 February (the year 1 is one), with
  a year the constructor accepts.
\<close>

definition common_year_date :: "bday \<Rightarrow> bool" where
  "common_year_date member_data =
     (1 \<le> stored_year member_data \<and> stored_year member_data \<le> 9999 \<and>
      1 \<le> bday_month member_data \<and> bday_month member_data \<le> 12 \<and>
      1 \<le> bday_day member_data \<and>
      bday_day member_data \<le> days_in_month 1 (bday_month member_data))"

section \<open>Sample states\<close>

text \<open>Concrete guilds and instants at which the commands are run below.\<close>

definition no_conf :: guild_conf where
  "no_conf = \<lparr>time_utc_s = None, message_w_year = None, message_wo_year = None,
              channel_id = None, role_id = None, setup_state = 0\<rparr>"

definition example_bot :: "(nat \<times> bday) list \<Rightarrow> nat set \<Rightarrow> bot" where
  "example_bot recs guild = \<lparr>all_members = recs, guild_members = guild, conf = no_conf, sent = []\<rparr>"

definition at_noon :: "int \<Rightarrow> int \<Rightarrow> int \<Rightarrow> datetime" where
  "at_noon y m d = \<lparr>year = y, month = m, day = d, hour = 12, minute = 0, second = 0, microsecond = 0\<rparr>"

definition two_members :: bot where
  "two_members =
     example_bot [(1, \<lparr>bday_year = Some 2000, bday_month = 1, bday_day = 2\<rparr>),
                  (2, \<lparr>bday_year = None, bday_month = 12, bday_day = 30\<rparr>)] {1, 2}"

definition departed_member :: bot where
  "departed_member =
     example_bot [(1, \<lparr>bday_year = None, bday_month = 12, bday_day = 30\<rparr>)] {}"

section \<open>Calendar arithmetic\<close>

lemma div_step:
  fixes y n :: int
  assumes "1 < n"
  shows "y div n = (y - 1) div n + (if y mod n = 0 then 1 else 0)"
proof -
  define q where "q = (y - 1) div n"
  define r where "r = (y - 1) mod n"
  have r: "0 \<le> r" "r < n" using assms by (simp_all add: r_def)
  have y: "y = n * q + (r + 1)" by (simp add: q_def r_def)
  show ?thesis
  proof (cases "r + 1 < n")
    case True
    have "y div n = q" using y r True by (intro int_div_pos_eq [of y n q "r + 1"]) auto
    moreover have "y mod n = r + 1" using y r True by (intro int_mod_pos_eq [of y n q "r + 1"]) auto
    ultimately show ?thesis using r by (simp add: q_def)
  next
    case False
    then have "y = n * (q + 1) + 0" using y r by (simp add: algebra_simps)
    then have "y div n = q + 1" "y mod n = 0"
      using assms by (simp_all del: add.right_neutral)
    then show ?thesis by (simp add: q_def)
  qed
qed

lemma leap_count:
  "(c \<Longrightarrow> b) \<Longrightarrow> (b \<Longrightarrow> a) \<Longrightarrow>
   (if a then 1 else 0) - (if b then 1 else 0) + (if c then 1 else 0)
     = (if a \<and> (\<not> b \<or> c) then 1 else (0::int))"
  by (cases a; cases b; cases c; simp)

lemma days_before_year_Suc:
  "days_before_year (y + 1) = days_before_year y + 365 + (if is_leap y then 1 else 0)"
proof -
  have a: "y div 4 = (y - 1) div 4 + (if y mod 4 = 0 then 1 else 0)" by (rule div_step) simp
  have b: "y div 100 = (y - 1) div 100 + (if y mod 100 = 0 then 1 else 0)" by (rule div_step) simp
  have c: "y div 400 = (y - 1) div 400 + (if y mod 400 = 0 then 1 else 0)" by (rule div_step) simp
  have d: "y mod 400 = 0 \<Longrightarrow> y mod 100 = 0"
  proof -
    assume "y mod 400 = 0"
    then have "400 dvd y" by (simp add: mod_eq_0_iff_dvd)
    moreover have "(100::int) dvd 400" by simp
    ultimately have "100 dvd y" by (rule dvd_trans [rotated])
    then show ?thesis by (simp add: mod_eq_0_iff_dvd)
  qed
  have e: "y mod 100 = 0 \<Longrightarrow> y mod 4 = 0"
  proof -
    assume "y mod 100 = 0"
    then have "100 dvd y" by (simp add: mod_eq_0_iff_dvd)
    moreover have "(4::int) dvd 100" by simp
    ultimately have "4 dvd y" by (rule dvd_trans [rotated])
    then show ?thesis by (simp add: mod_eq_0_iff_dvd)
  qed
  have "days_before_year (y + 1) = y * 365 + y div 4 - y div 100 + y div 400"
    by (simp add: days_before_year_def)
  also have "\<dots> = days_before_year y + 365
      + ((if y mod 4 = 0 then 1 else 0) - (if y mod 100 = 0 then 1 else 0) + (if y mod 400 = 0 then 1 else 0))"
    unfolding days_before_year_def by (simp only: a b c) (simp add: algebra_simps)
  also have "(if y mod 4 = 0 then 1 else 0) - (if y mod 100 = 0 then 1 else 0) + (if y mod 400 = 0 then 1 else 0)
      = (if is_leap y then 1 else (0::int))"
    unfolding is_leap_def by (rule leap_count [OF d e])
  finally show ?thesis .
qed

lemma month_cases:
  assumes "1 \<le> m" "m \<le> (12::int)"
  shows "m = 1 \<or> m = 2 \<or> m = 3 \<or> m = 4 \<or> m = 5 \<or> m = 6 \<or> m = 7 \<or> m = 8 \<or> m = 9 \<or> m = 10 \<or> m = 11 \<or> m = 12"
  using assms by arith

lemma year_day_bounds:
  assumes "check_date_fields y m d"
  shows "1 \<le> year_day y m d" and "year_day y m d \<le> 365 + (if is_leap y then 1 else 0)"
proof -
  from assms have m: "1 \<le> m" "m \<le> 12" and d: "1 \<le> d" "d \<le> days_in_month y m"
    by (simp_all add: check_date_fields_def)
  from month_cases [OF m] d show "1 \<le> year_day y m d"
    by (elim disjE; simp add: year_day_def days_before_month_def)
  from month_cases [OF m] d show "year_day y m d \<le> 365 + (if is_leap y then 1 else 0)"
    by (elim disjE; simp add: year_day_def days_before_month_def days_in_month_def split: if_splits)
qed

lemma days_before_month_step:
  assumes "1 \<le> m" "m < 12"
  shows "days_before_month y (m + 1) = days_before_month y m + days_in_month y m"
proof -
  from assms have "m = 1 \<or> m = 2 \<or> m = 3 \<or> m = 4 \<or> m = 5 \<or> m = 6 \<or> m = 7 \<or> m = 8 \<or> m = 9 \<or> m = 10 \<or> m = 11"
    by arith
  then show ?thesis
    by (elim disjE; simp add: days_before_month_def days_in_month_def)
qed

lemma days_before_month_le:
  assumes "1 \<le> m" "m \<le> m'" "m' \<le> 12"
  shows "days_before_month y m \<le> days_before_month y m'"
proof -
  have "\<And>m. 1 \<le> m \<Longrightarrow> m + int k \<le> 12 \<Longrightarrow> days_before_month y m \<le> days_before_month y (m + int k)" for k
  proof (induction k)
    case 0
    then show ?case by simp
  next
    case (Suc k)
    have "days_before_month y m \<le> days_before_month y (m + int k)"
      using Suc.prems by (intro Suc.IH) auto
    also have "\<dots> \<le> days_before_month y (m + int k) + days_in_month y (m + int k)"
      by (simp add: days_in_month_def)
    also have "\<dots> = days_before_month y (m + int k + 1)"
      using Suc.prems by (intro days_before_month_step [symmetric]) auto
    also have "m + int k + 1 = m + int (Suc k)" by simp
    finally show ?case .
  qed
  from this [of m "nat (m' - m)"] assms show ?thesis by simp
qed

lemma year_day_mono:
  assumes "check_date_fields y m d" "check_date_fields y m' d'" "(m, d) < (m', d')"
  shows "year_day y m d < year_day y m' d'"
proof (cases "m < m'")
  case True
  from assms have m: "1 \<le> m" "m' \<le> 12" and d: "d \<le> days_in_month y m" "1 \<le> d'"
    by (simp_all add: check_date_fields_def)
  have "year_day y m d \<le> days_before_month y m + days_in_month y m"
    using d by (simp add: year_day_def)
  also have "\<dots> = days_before_month y (m + 1)"
    using m True by (intro days_before_month_step [symmetric]) auto
  also have "\<dots> \<le> days_before_month y m'"
    using m True by (intro days_before_month_le) auto
  also have "\<dots> < year_day y m' d'" using d by (simp add: year_day_def)
  finally show ?thesis .
next
  case False
  with assms(3) have "m = m'" "d < d'" by auto
  then show ?thesis by (simp add: year_day_def)
qed

section \<open>One pass over the stored birthdays\<close>

lemma upcoming_loop_Cons:
  "upcoming_loop today_dt days guild ((member_id, member_data) # rest) pb ndm =
     (if member_id \<notin> guild then upcoming_loop today_dt days guild rest pb ndm
      else case parse_bday today_dt days member_data of
             Inl e \<Rightarrow> Inl e
           | Inr None \<Rightarrow> upcoming_loop today_dt days guild rest pb ndm
           | Inr (Some (k, a, nm)) \<Rightarrow>
               upcoming_loop today_dt days guild rest
                 (append_bday k (member_id, a) pb) (ndm(k \<mapsto> nm)))"
  by (simp add: parse_bday_def stored_year_def Let_def split: sum.splits)

lemma td_days_midnight:
  "at_midnight a \<Longrightarrow> at_midnight b \<Longrightarrow> td_days (dt_sub a b) = toordinal a - toordinal b"
  by (simp add: at_midnight_def dt_sub_def td_days_def seconds_of_day_def)

lemma toordinal_year_day:
  "toordinal dt = days_before_year (year dt) + year_day (year dt) (month dt) (day dt)"
  by (simp add: toordinal_def year_day_def)

lemma dt_gt_same_year:
  "at_midnight a \<Longrightarrow> at_midnight b \<Longrightarrow> year a = year b \<Longrightarrow>
   dt_gt a b \<longleftrightarrow> (month b, day b) < (month a, day a)"
  by (auto simp: dt_gt_def dt_tuple_def at_midnight_def)

lemma this_year_diff:
  assumes "valid_date a" "valid_date b" "year a = year b" "(month b, day b) < (month a, day a)"
  shows "1 \<le> toordinal a - toordinal b"
proof -
  have "year_day (year b) (month b) (day b) < year_day (year b) (month a) (day a)"
    using assms by (intro year_day_mono) (simp_all add: valid_date_def)
  then show ?thesis using assms(3) by (simp add: toordinal_year_day)
qed

lemma next_year_diff:
  assumes "valid_date a" "valid_date b" "year a = year b + 1"
  shows "1 \<le> toordinal a - toordinal b"
proof -
  have "year_day (year b) (month b) (day b) \<le> 365 + (if is_leap (year b) then 1 else 0)"
    using assms(2) by (intro year_day_bounds) (simp add: valid_date_def)
  moreover have "1 \<le> year_day (year a) (month a) (day a)"
    using assms(1) by (intro year_day_bounds) (simp add: valid_date_def)
  moreover have "days_before_year (year a) = days_before_year (year b) + 365 + (if is_leap (year b) then 1 else 0)"
    by (simp only: assms(3) days_before_year_Suc)
  ultimately show ?thesis by (simp add: toordinal_year_day split: if_splits)
qed

lemma datetime_ymd_Inr:
  assumes "datetime_ymd y m d = Inr dt"
  shows "year dt = y" "month dt = m" "day dt = d" "at_midnight dt" "valid_date dt"
  using assms by (auto simp: datetime_ymd_def at_midnight_def valid_date_def split: if_splits)

lemma replace_year_Inr:
  assumes "replace_year dt y = Inr dt'"
  shows "year dt' = y" "month dt' = month dt" "day dt' = day dt" "valid_date dt'"
    "at_midnight dt \<Longrightarrow> at_midnight dt'"
  using assms by (auto simp: replace_year_def at_midnight_def valid_date_def split: if_splits)

lemma parse_bday_today:
  assumes "parse_bday today_dt days member_data = Inr r" "is_today today_dt member_data"
  shows "r = Some (0, if stored_year member_data = 1 then NoAge
                      else Turns (year today_dt - stored_year member_data), Today)"
proof -
  from assms(1) obtain birthday_dt where b:
    "datetime_ymd (stored_year member_data) (bday_month member_data) (bday_day member_data) = Inr birthday_dt"
    by (auto simp: parse_bday_def split: sum.splits)
  note f = datetime_ymd_Inr [OF b]
  from assms show ?thesis
    using b f(1-3) by (auto simp: parse_bday_def is_today_def)
qed

lemma parse_bday_later:
  assumes "parse_bday today_dt days member_data = Inr (Some (k, a, nm))"
    and "\<not> is_today today_dt member_data" "valid_date today_dt" "at_midnight today_dt"
  shows "1 \<le> k" "k \<le> days" "nm \<noteq> Today"
    "a = (if stored_year member_data = 1 then NoAge
          else WillTurn (year today_dt - stored_year member_data))"
proof -
  from assms(1) obtain birthday_dt where b:
    "datetime_ymd (stored_year member_data) (bday_month member_data) (bday_day member_data) = Inr birthday_dt"
    by (auto simp: parse_bday_def split: sum.splits)
  note f = datetime_ymd_Inr [OF b]
  have nomatch: "\<not> (month today_dt = month birthday_dt \<and> day today_dt = day birthday_dt)"
    using assms(2) f by (simp add: is_today_def)
  from assms(1) b nomatch obtain this_year_bday next_year_bday where
    t: "replace_year birthday_dt (year today_dt) = Inr this_year_bday" and
    n: "replace_year birthday_dt (year today_dt + 1) = Inr next_year_bday"
    by (auto simp: parse_bday_def split: sum.splits)
  note ft = replace_year_Inr [OF t] and fn = replace_year_Inr [OF n]
  define next_birthday_dt where
    "next_birthday_dt = (if dt_gt this_year_bday today_dt then this_year_bday else next_year_bday)"
  have mid: "at_midnight next_birthday_dt" and val: "valid_date next_birthday_dt"
    using ft fn f(4) by (simp_all add: next_birthday_dt_def)
  have diff: "td_days (dt_sub next_birthday_dt today_dt) = toordinal next_birthday_dt - toordinal today_dt"
    using mid assms(4) by (rule td_days_midnight)
  from assms(1) b nomatch t n have r:
    "\<not> days < toordinal next_birthday_dt - toordinal today_dt"
    "k = toordinal next_birthday_dt - toordinal today_dt"
    "a = (if year birthday_dt = 1 then NoAge else WillTurn (year today_dt - year birthday_dt))"
    "nm = MonthDay (month next_birthday_dt) (day next_birthday_dt)"
    by (simp_all add: parse_bday_def Let_def
          next_birthday_dt_def [symmetric] diff split: if_splits)
  have "1 \<le> toordinal next_birthday_dt - toordinal today_dt"
  proof (cases "dt_gt this_year_bday today_dt")
    case True
    then have "(month today_dt, day today_dt) < (month this_year_bday, day this_year_bday)"
      using dt_gt_same_year [of this_year_bday today_dt] ft f(4) assms(4) by simp
    then show ?thesis
      using True ft assms(3) by (simp add: next_birthday_dt_def this_year_diff)
  next
    case False
    then show ?thesis
      using fn assms(3) by (simp add: next_birthday_dt_def next_year_diff)
  qed
  with r show "1 \<le> k" "k \<le> days" "nm \<noteq> Today" by simp_all
  from r(3) f(1) show "a = (if stored_year member_data = 1 then NoAge
          else WillTurn (year today_dt - stored_year member_data))" by simp
qed

section \<open>Invariants of the loop\<close>

lemma upcoming_loop_rule:
  assumes "upcoming_loop today_dt days guild recs pb ndm = Inr (pb', ndm')"
    and "P recs pb ndm"
    and skip: "\<And>mid data rest pb ndm. P ((mid, data) # rest) pb ndm \<Longrightarrow>
            mid \<notin> guild \<or> parse_bday today_dt days data = Inr None \<Longrightarrow> P rest pb ndm"
    and add: "\<And>mid data rest pb ndm k a nm. P ((mid, data) # rest) pb ndm \<Longrightarrow>
            mid \<in> guild \<Longrightarrow> parse_bday today_dt days data = Inr (Some (k, a, nm)) \<Longrightarrow>
            P rest (append_bday k (mid, a) pb) (ndm(k \<mapsto> nm))"
  shows "P [] pb' ndm'"
  using assms(1,2)
proof (induction recs arbitrary: pb ndm)
  case Nil
  then show ?case by simp
next
  case (Cons r recs)
  obtain mid data where r: "r = (mid, data)" by (cases r)
  show ?case
  proof (cases "mid \<in> guild")
    case False
    with Cons.prems r have "upcoming_loop today_dt days guild recs pb ndm = Inr (pb', ndm')"
      by (simp add: upcoming_loop_Cons del: upcoming_loop.simps)
    moreover have "P recs pb ndm" using skip Cons.prems(2) False r by blast
    ultimately show ?thesis by (rule Cons.IH)
  next
    case True
    show ?thesis
    proof (cases "parse_bday today_dt days data")
      case (Inl e)
      with Cons.prems(1) r True show ?thesis by (simp add: upcoming_loop_Cons del: upcoming_loop.simps)
    next
      case (Inr res)
      show ?thesis
      proof (cases res)
        case None
        with Cons.prems(1) r True Inr
        have "upcoming_loop today_dt days guild recs pb ndm = Inr (pb', ndm')"
          by (simp add: upcoming_loop_Cons del: upcoming_loop.simps)
        moreover have "P recs pb ndm" using skip Cons.prems(2) None Inr r by blast
        ultimately show ?thesis by (rule Cons.IH)
      next
        case (Some t)
        obtain k a nm where t: "t = (k, a, nm)" by (cases t)
        with Cons.prems(1) r True Inr Some
        have "upcoming_loop today_dt days guild recs (append_bday k (mid, a) pb) (ndm(k \<mapsto> nm))
                = Inr (pb', ndm')"
          by (simp add: upcoming_loop_Cons del: upcoming_loop.simps)
        moreover have "P recs (append_bday k (mid, a) pb) (ndm(k \<mapsto> nm))"
          using add Cons.prems(2) True Inr Some t r by blast
        ultimately show ?thesis by (rule Cons.IH)
      qed
    qed
  qed
qed

lemma keys_append_bday: "fst ` set (append_bday k x pb) = insert k (fst ` set pb)"
  by (simp add: append_bday_def dom_update)

lemma distinct_append_bday:
  "distinct (map fst pb) \<Longrightarrow> distinct (map fst (append_bday k x pb))"
  by (simp add: append_bday_def distinct_update)

lemma map_of_append_bday:
  "map_of (append_bday k x pb) =
     (map_of pb)(k \<mapsto> (case map_of pb k of None \<Rightarrow> [] | Some xs \<Rightarrow> xs) @ [x])"
  by (simp add: append_bday_def update_conv')

lemma today_lines_append_bday:
  "today_lines (append_bday k x pb) = (if k = 0 then today_lines pb @ [x] else today_lines pb)"
  by (simp add: today_lines_def map_of_append_bday)

lemma mset_all_lines_append_bday:
  "mset (all_lines (append_bday k x pb)) = add_mset x (mset (all_lines pb))"
proof (induction pb)
  case Nil
  then show ?case by (simp add: all_lines_def append_bday_def)
next
  case (Cons p pb)
  obtain k' v where p: "p = (k', v)" by (cases p)
  show ?case
  proof (cases "k' = k")
    case True
    with p show ?thesis by (simp add: all_lines_def append_bday_def)
  next
    case False
    with p Cons.IH show ?thesis by (simp add: all_lines_def append_bday_def)
  qed
qed

lemma mset_all_lines_sort:
  "mset (all_lines (sort_key f pb)) = mset (all_lines pb)"
proof -
  have "mset (map snd (sort_key f pb)) = mset (map snd pb)"
    by (simp only: mset_map mset_sort)
  then have "mset (concat (map snd (sort_key f pb))) = mset (concat (map snd pb))"
    by (simp only: mset_concat) (metis sum_mset_sum_list mset_map)
  then show ?thesis by (simp add: all_lines_def)
qed

lemma parse_bday_key:
  assumes "parse_bday today_dt days member_data = Inr (Some (k, a, nm))"
    and "valid_date today_dt" "at_midnight today_dt" "0 \<le> days"
  shows "0 \<le> k" "k \<le> days" "k = 0 \<longleftrightarrow> is_today today_dt member_data" "k = 0 \<Longrightarrow> nm = Today"
    "k = 0 \<Longrightarrow> a = turns_text today_dt member_data"
proof -
  have "0 \<le> k \<and> k \<le> days \<and> (k = 0 \<longleftrightarrow> is_today today_dt member_data) \<and>
        (k = 0 \<longrightarrow> nm = Today \<and> a = turns_text today_dt member_data)"
  proof (cases "is_today today_dt member_data")
    case True
    from parse_bday_today [OF assms(1) True]
    have "k = 0" "nm = Today" "a = turns_text today_dt member_data"
      by (simp_all add: turns_text_def)
    with True assms(4) show ?thesis by simp
  next
    case False
    from parse_bday_later(1,2) [OF assms(1) False assms(2,3)] False
    show ?thesis by simp
  qed
  then show "0 \<le> k" "k \<le> days" "k = 0 \<longleftrightarrow> is_today today_dt member_data" "k = 0 \<Longrightarrow> nm = Today"
    "k = 0 \<Longrightarrow> a = turns_text today_dt member_data" by simp_all
qed

lemma loop_keys:
  assumes "upcoming_loop today_dt days guild recs pb ndm = Inr (pb', ndm')"
    and "valid_date today_dt" "at_midnight today_dt" "0 \<le> days"
    and "\<forall>k\<in>fst ` set pb. 0 \<le> k \<and> k \<le> days"
  shows "\<forall>k\<in>fst ` set pb'. 0 \<le> k \<and> k \<le> days"
  by (rule upcoming_loop_rule [OF assms(1), where P = "\<lambda>rest pb ndm. \<forall>k\<in>fst ` set pb. 0 \<le> k \<and> k \<le> days"])
     (use assms(5) in \<open>auto simp: keys_append_bday dest: parse_bday_key(1,2) [OF _ assms(2,3,4)]\<close>)

lemma loop_distinct_keys:
  assumes "upcoming_loop today_dt days guild recs pb ndm = Inr (pb', ndm')"
    and "distinct (map fst pb)"
  shows "distinct (map fst pb')"
  by (rule upcoming_loop_rule [OF assms(1), where P = "\<lambda>rest pb ndm. distinct (map fst pb)"])
     (use assms(2) in \<open>auto intro: distinct_append_bday\<close>)

lemma loop_distinct_members:
  assumes "upcoming_loop today_dt days guild recs pb ndm = Inr (pb', ndm')"
    and "distinct (map fst recs)" "distinct (map fst (all_lines pb))"
    and "fst ` set (all_lines pb) \<inter> fst ` set recs = {}"
  shows "distinct (map fst (all_lines pb'))"
proof -
  let ?P = "\<lambda>(rest :: (nat \<times> bday) list) pb (ndm :: int \<rightharpoonup> field_name).
      distinct (map fst rest) \<and> distinct (map fst (all_lines pb)) \<and>
      fst ` set (all_lines pb) \<inter> fst ` set rest = {}"
  have "?P [] pb' ndm'"
  proof (rule upcoming_loop_rule [OF assms(1), where P = ?P], goal_cases)
    case 1
    then show ?case using assms by simp
  next
    case (2 mid data rest pb ndm)
    then show ?case by auto
  next
    case (3 mid data rest pb ndm k a nm)
    let ?pb = "append_bday k (mid, a) pb"
    have m: "mset (all_lines ?pb) = add_mset (mid, a) (mset (all_lines pb))"
      by (rule mset_all_lines_append_bday)
    then have "mset (map fst (all_lines ?pb)) = mset (mid # map fst (all_lines pb))"
      using arg_cong [OF m, of "image_mset fst"] by simp
    then have "distinct (map fst (all_lines ?pb)) \<longleftrightarrow> distinct (mid # map fst (all_lines pb))"
      by (rule mset_eq_imp_distinct_iff)
    moreover have "mid \<notin> fst ` set (all_lines pb)" using 3(1) by auto
    moreover have "set (all_lines ?pb) = insert (mid, a) (set (all_lines pb))"
      using m by (metis set_mset_mset set_mset_add_mset_insert)
    ultimately show ?case using 3(1) by auto
  qed
  then show ?thesis by simp
qed

lemma loop_today_lines:
  assumes "upcoming_loop today_dt days guild recs pb ndm = Inr (pb', ndm')"
    and "valid_date today_dt" "at_midnight today_dt" "0 \<le> days"
  shows "today_lines pb' = today_lines pb @
           map (\<lambda>(mid, data). (mid, turns_text today_dt data))
             (filter (\<lambda>(mid, data). mid \<in> guild \<and> is_today today_dt data) recs)"
proof -
  let ?f = "\<lambda>rest. map (\<lambda>(mid, data). (mid, turns_text today_dt data))
             (filter (\<lambda>(mid, data). mid \<in> guild \<and> is_today today_dt data) rest)"
  let ?P = "\<lambda>rest pb' (ndm :: int \<rightharpoonup> field_name). today_lines pb' @ ?f rest = today_lines pb @ ?f recs"
  have "?P [] pb' ndm'"
  proof (rule upcoming_loop_rule [OF assms(1), where P = ?P], goal_cases)
    case 1
    then show ?case by simp
  next
    case (2 mid data rest pb ndm)
    have "\<not> (mid \<in> guild \<and> is_today today_dt data)"
      using 2(2) parse_bday_today [of today_dt days data None] by auto
    with 2(1) show ?case by simp
  next
    case (3 mid data rest pb ndm k a nm)
    note k = parse_bday_key [OF 3(3) assms(2,3,4)]
    show ?case
    proof (cases "k = 0")
      case True
      with k 3(1,2) show ?thesis by (simp add: today_lines_append_bday)
    next
      case False
      with k 3(1,2) show ?thesis by (simp add: today_lines_append_bday)
    qed
  qed
  then show ?thesis by simp
qed

lemma loop_today_name:
  assumes "upcoming_loop today_dt days guild recs pb ndm = Inr (pb', ndm')"
    and "valid_date today_dt" "at_midnight today_dt" "0 \<le> days"
    and "map_of pb 0 \<noteq> None \<longrightarrow> ndm 0 = Some Today"
  shows "map_of pb' 0 \<noteq> None \<longrightarrow> ndm' 0 = Some Today"
proof (rule upcoming_loop_rule [OF assms(1), where P = "\<lambda>rest pb ndm. map_of pb 0 \<noteq> None \<longrightarrow> ndm 0 = Some Today"], goal_cases)
  case 1
  then show ?case using assms(5) .
next
  case (2 mid data rest pb ndm)
  then show ?case by simp
next
  case (3 mid data rest pb ndm k a nm)
  note k = parse_bday_key [OF 3(3) assms(2,3,4)]
  show ?case using k(4) 3(1) by (cases "k = 0") (simp_all add: map_of_append_bday)
qed

section \<open>The replies of \<^verbatim>\<open>upcoming\<close>\<close>

lemma send_inject [simp]: "send m s = send m' s \<longleftrightarrow> m = m'"
proof
  assume "send m s = send m' s"
  then have "sent (send m s) = sent (send m' s)" by simp
  then show "m = m'" by (simp add: send_def)
qed simp

lemma send_neq [simp]: "send m s \<noteq> s"
proof
  assume "send m s = s"
  then have "sent (send m s) = sent s" by simp
  then show False by (simp add: send_def)
qed

lemma last_sent_send [simp]: "last (sent (send m s)) = m"
  by (simp add: send_def)

lemma upcoming_cases:
  assumes "upcoming days utcnow s = (s', None)"
  obtains (range) "days < 1 \<or> 365 < days" "s' = send DaysRange s"
  | (none) ndm where "1 \<le> days" "days \<le> 365"
      "upcoming_loop (replace_midnight utcnow) days (guild_members s) (all_members s) [] Map.empty
         = Inr ([], ndm)"
      "s' = send NoUpcoming s"
  | (embed) pb ndm where "1 \<le> days" "days \<le> 365"
      "upcoming_loop (replace_midnight utcnow) days (guild_members s) (all_members s) [] Map.empty
         = Inr (pb, ndm)" "pb \<noteq> []"
      "s' = send (Embed (length pb > 25) (embed_of pb ndm)) s"
proof (cases "days < 1 \<or> 365 < days")
  case True
  with assms have "s' = send DaysRange s" by (auto simp: upcoming_def)
  with True show ?thesis by (rule range)
next
  case False
  show ?thesis
  proof (cases "upcoming_loop (replace_midnight utcnow) days (guild_members s) (all_members s) [] Map.empty")
    case (Inl e)
    with assms False show ?thesis by (simp add: upcoming_def)
  next
    case (Inr r)
    obtain pb ndm where r: "r = (pb, ndm)" by (cases r)
    show ?thesis
    proof (cases "pb = []")
      case True
      with assms False Inr r have "s' = send NoUpcoming s" by (auto simp: upcoming_def)
      with False Inr r True show ?thesis by (intro none [of ndm]) auto
    next
      case nonempty: False
      with assms False Inr r have "s' = send (Embed (length pb > 25) (embed_of pb ndm)) s"
        by (auto simp: upcoming_def embed_of_def)
      with False Inr r nonempty show ?thesis by (intro embed [of pb ndm]) auto
    qed
  qed
qed

lemma replace_midnight_simps [simp]:
  "at_midnight (replace_midnight dt)"
  "valid_date (replace_midnight dt) = valid_date dt"
  "year (replace_midnight dt) = year dt"
  "is_today (replace_midnight dt) data = is_today dt data"
  "turns_text (replace_midnight dt) data = turns_text dt data"
  by (simp_all add: replace_midnight_def at_midnight_def valid_date_def is_today_def turns_text_def)

lemma field_lines_embed_of: "field_lines (embed_of pb ndm) = all_lines (sort_key fst pb)"
proof -
  have "map (\<lambda>(d, name, members). members) (embed_of pb ndm) = map snd (sort_key fst pb)"
    by (simp add: embed_of_def case_prod_beta)
  then show ?thesis by (simp add: field_lines_def all_lines_def)
qed

lemma distinct_keys_sort:
  "distinct (map fst (sort_key fst pb)) = distinct (map fst pb)"
proof -
  have "mset (map fst (sort_key fst pb)) = mset (map fst pb)"
    by (simp only: mset_map mset_sort)
  then show ?thesis by (rule mset_eq_imp_distinct_iff)
qed

lemma map_of_sort_key:
  assumes "distinct (map fst pb)"
  shows "map_of (sort_key fst pb) = map_of pb"
proof -
  have "set (sort_key fst pb) = set pb" by simp
  with assms show ?thesis by (simp add: map_of_inject_set distinct_keys_sort)
qed

lemma map_of_embed_of:
  assumes "distinct (map fst pb)"
  shows "map_of (embed_of pb ndm) k = map_option (\<lambda>members. (ndm k, members)) (map_of pb k)"
proof -
  have m: "map_of (map (\<lambda>(d, members). (d, ndm d, members)) xs) k
          = map_option (\<lambda>members. (ndm k, members)) (map_of xs k)" for xs
    by (induction xs) auto
  show ?thesis
    unfolding embed_of_def by (simp only: m map_of_sort_key [OF assms])
qed

lemma today_field_embed_of:
  assumes "distinct (map fst pb)"
  shows "today_field (Embed b (embed_of pb ndm)) = today_lines pb"
  by (simp add: today_field_def today_lines_def map_of_embed_of [OF assms] split: option.splits)

lemma loop_lines_age:
  assumes "upcoming_loop today_dt days guild recs pb ndm = Inr (pb', ndm')"
    and "valid_date today_dt" "at_midnight today_dt"
    and "\<forall>(mid, a) \<in> set (all_lines pb). \<exists>data. (mid, data) \<in> set recs \<and>
             (a = turns_text today_dt data \<or> a = will_turn_text today_dt data)"
  shows "\<forall>(mid, a) \<in> set (all_lines pb'). \<exists>data. (mid, data) \<in> set recs \<and>
             (a = turns_text today_dt data \<or> a = will_turn_text today_dt data)"
proof -
  let ?P = "\<lambda>(rest :: (nat \<times> bday) list) pb (ndm :: int \<rightharpoonup> field_name).
      set rest \<subseteq> set recs \<and>
      (\<forall>(mid, a) \<in> set (all_lines pb). \<exists>data. (mid, data) \<in> set recs \<and>
             (a = turns_text today_dt data \<or> a = will_turn_text today_dt data))"
  have "?P [] pb' ndm'"
  proof (rule upcoming_loop_rule [OF assms(1), where P = ?P], goal_cases)
    case 1
    then show ?case using assms(4) by simp
  next
    case (2 mid data rest pb ndm)
    then show ?case by simp
  next
    case (3 mid data rest pb1 ndm k a nm)
    have "set (all_lines (append_bday k (mid, a) pb1)) = insert (mid, a) (set (all_lines pb1))"
      using mset_all_lines_append_bday [of k "(mid, a)" pb1]
      by (metis set_mset_mset set_mset_add_mset_insert)
    moreover have "a = turns_text today_dt data \<or> a = will_turn_text today_dt data"
    proof (cases "is_today today_dt data")
      case True
      from parse_bday_today [OF 3(3) True] show ?thesis by (simp add: turns_text_def)
    next
      case False
      from parse_bday_later(4) [OF 3(3) False assms(2,3)] show ?thesis
        by (simp add: will_turn_text_def)
    qed
    moreover have "(mid, data) \<in> set recs" using 3(1) by auto
    ultimately show ?case using 3(1) by auto
  qed
  then show ?thesis by simp
qed

lemma parse_bday_common_year:
  assumes "common_year_date member_data" "valid_date today_dt" "year today_dt < 9999"
  shows "\<exists>r. parse_bday today_dt days member_data = Inr r"
proof -
  have dim: "days_in_month 1 m \<le> days_in_month y m" for y m
    by (simp add: days_in_month_def is_leap_def)
  from assms(1) have c: "check_date_fields y (bday_month member_data) (bday_day member_data)"
    if "1 \<le> y" "y \<le> 9999" for y
    using that dim [of "bday_month member_data" y]
    by (simp add: common_year_date_def check_date_fields_def)
  have y: "1 \<le> year today_dt" "year today_dt + 1 \<le> 9999"
    using assms(2,3) by (simp_all add: valid_date_def check_date_fields_def)
  have "check_date_fields (stored_year member_data) (bday_month member_data) (bday_day member_data)"
    using assms(1) by (intro c) (simp_all add: common_year_date_def)
  moreover have "check_date_fields (year today_dt) (bday_month member_data) (bday_day member_data)"
    using y by (intro c) simp_all
  moreover have "check_date_fields (year today_dt + 1) (bday_month member_data) (bday_day member_data)"
    using y by (intro c) simp_all
  ultimately show ?thesis
    by (simp add: parse_bday_def datetime_ymd_def replace_year_def Let_def)
qed

lemma upcoming_loop_total:
  assumes "\<forall>(mid, data) \<in> set recs. mid \<in> guild \<longrightarrow> common_year_date data"
    and "valid_date today_dt" "year today_dt < 9999"
  shows "\<exists>r. upcoming_loop today_dt days guild recs pb ndm = Inr r"
  using assms(1)
proof (induction recs arbitrary: pb ndm)
  case Nil
  then show ?case by simp
next
  case (Cons r recs)
  obtain mid data where r: "r = (mid, data)" by (cases r)
  have IH: "\<exists>r. upcoming_loop today_dt days guild recs pb ndm = Inr r" for pb ndm
    using Cons.prems by (intro Cons.IH) simp
  show ?case
  proof (cases "mid \<in> guild")
    case False
    then show ?thesis using IH by (simp add: r upcoming_loop_Cons del: upcoming_loop.simps)
  next
    case True
    with Cons.prems r have "common_year_date data" by simp
    from parse_bday_common_year [OF this assms(2,3), of days]
    obtain res where "parse_bday today_dt days data = Inr res" by blast
    then show ?thesis
      using True IH
      by (cases res) (auto simp add: r upcoming_loop_Cons simp del: upcoming_loop.simps)
  qed
qed

lemmas eval_defs =
  upcoming_def replace_midnight_def datetime_ymd_def check_date_fields_def days_in_month_def
  replace_year_def dt_gt_def dt_tuple_def dt_sub_def toordinal_def days_before_year_def
  days_before_month_def is_leap_def seconds_of_day_def td_days_def append_bday_def send_def
  example_bot_def at_noon_def no_conf_def is_today_def today_exact_def today_field_def valid_date_def

lemma upcoming_two_members:
  "upcoming 7 (at_noon 2024 12 30) two_members =
     (send (Embed False [(0, Some Today, [(2, NoAge)]),
                         (3, Some (MonthDay 1 2), [(1, WillTurn 24)])]) two_members, None)"
  by (simp add: two_members_def eval_defs)

lemma press_wait_error:
  "press_wait vs presses = (r, Some e) \<Longrightarrow> e = TimeoutError"
  by (induction presses arbitrary: vs) (auto split: if_splits)

lemma add_items_steps:
  "add_items items (view, steps) = ((view', steps'), e) \<Longrightarrow>
   \<exists>bs. steps' = steps @ map ButtonAdded bs"
proof (induction items arbitrary: view steps)
  case Nil
  then show ?case by simp
next
  case (Cons i items)
  show ?case
  proof (cases "new_button i")
    case (Inl e1)
    with Cons.prems show ?thesis by simp
  next
    case (Inr button)
    show ?thesis
    proof (cases "add_item view button")
      case (Inl e1)
      with Cons.prems Inr show ?thesis by simp
    next
      case v: (Inr view1)
      with Cons.prems Inr
      have "add_items items (view1, steps @ [ButtonAdded button]) = ((view', steps'), e)" by simp
      from Cons.IH [OF this] obtain bs where "steps' = (steps @ [ButtonAdded button]) @ map ButtonAdded bs"
        by blast
      then have "steps' = steps @ map ButtonAdded (button # bs)" by simp
      then show ?thesis by blast
    qed
  qed
qed

lemma find_open_space_None:
  "find_open_space ws = None \<Longrightarrow> \<forall>w\<in>set ws. 5 \<le> w"
  by (induction ws) (auto split: if_splits)

lemma find_open_space_Some:
  "find_open_space ws = Some k \<Longrightarrow> k < length ws \<and> ws ! k < 5"
proof (induction ws arbitrary: k)
  case Nil
  then show ?case by simp
next
  case (Cons w ws)
  then show ?case by (auto split: if_splits)
qed

lemma add_item_no_row:
  assumes "room view" "row item = None" "length (children view) < 25"
  shows "\<exists>view'. add_item view item = Inr view' \<and> room view' \<and>
           length (children view') = Suc (length (children view))"
proof (cases "find_open_space (weights view)")
  case None
  then have "\<forall>w\<in>set (weights view). 5 \<le> w" by (rule find_open_space_None)
  then have "sum_list (map (\<lambda>w. 5) (weights view)) \<le> sum_list (map (\<lambda>w. w) (weights view))"
    by (intro sum_list_mono) simp
  then have "5 * length (weights view) \<le> sum_list (weights view)"
    by (simp add: sum_list_triv)
  with assms show ?thesis by (simp add: room_def)
next
  case (Some k)
  from find_open_space_Some [OF Some] have k: "k < length (weights view)" by simp
  have "sum_list ((weights view)[k := weights view ! k + 1]) = sum_list (weights view) + 1"
    using k by (simp add: sum_list_update)
  with Some assms show ?thesis by (simp add: add_item_def room_def)
qed

lemma add_items_no_rows:
  assumes "no_rows items" "room view" "length (children view) + length items \<le> 25"
  shows "snd (add_items items (view, steps)) = None"
  using assms
proof (induction items arbitrary: view steps)
  case Nil
  then show ?case by simp
next
  case (Cons i items)
  from Cons.prems have r: "row i = None" "no_rows items" by (simp_all add: no_rows_def)
  from Cons.prems have "length (children view) < 25" by simp
  from add_item_no_row [OF Cons.prems(2) r(1) this] obtain view' where
    v: "add_item view i = Inr view'" "room view'" "length (children view') = Suc (length (children view))"
    by blast
  have "snd (add_items items (view', steps @ [ButtonAdded i])) = None"
    using r(2) v(2,3) Cons.prems(3) by (intro Cons.IH) simp_all
  with r(1) v(1) show ?case by (simp add: new_button_def)
qed

section \<open>The claims\<close>

subsection \<open>Ages shown by \<^verbatim>\<open>upcoming\<close>\<close>

text \<open>
  Every line of a listing belongs to a stored record, and the age it shows, if any, is the
  year of today minus the stored year, in the group of today and in every later group.
\<close>

lemma upcoming_shown_ages:
  assumes "upcoming days utcnow s = (send (Embed too_many flds) s, None)" "valid_date utcnow"
  shows "\<forall>(mid, a) \<in> set (field_lines flds). \<exists>data. (mid, data) \<in> set (all_members s) \<and>
           (a = turns_text utcnow data \<or> a = will_turn_text utcnow data)"
  using assms(1)
proof (cases rule: upcoming_cases)
  case range
  then show ?thesis by simp
next
  case (none ndm)
  then show ?thesis by simp
next
  case (embed pb ndm)
  then have flds: "flds = embed_of pb ndm" by simp
  have "set (field_lines flds) = set (all_lines pb)"
    using arg_cong [OF mset_all_lines_sort [of fst pb], of set_mset]
    by (simp add: flds field_lines_embed_of)
  moreover have "\<forall>(mid, a) \<in> set (all_lines pb). \<exists>data. (mid, data) \<in> set (all_members s) \<and>
           (a = turns_text (replace_midnight utcnow) data \<or>
            a = will_turn_text (replace_midnight utcnow) data)"
    using assms(2) by (intro loop_lines_age [OF embed(3)]) (simp_all add: all_lines_def)
  moreover have "will_turn_text (replace_midnight utcnow) = will_turn_text utcnow"
    by (simp add: will_turn_text_def fun_eq_iff)
  ultimately show ?thesis by simp
qed

text \<open>
  C1. The claim: a record with a known year is shown with the year of its next occurrence
  minus the birth year, and a record without a year is shown with no age. On 2024-12-30 the
  member born on 2000-01-02 is listed three days ahead, under January 02 of 2025, as one who
  will turn 24: the age is computed from the year of today, not from the year of the
  occurrence, which gives 25.
\<close>

theorem upcoming_age_next_year:
  "upcoming 7 (at_noon 2024 12 30)
     (example_bot [(1, \<lparr>bday_year = Some 2000, bday_month = 1, bday_day = 2\<rparr>)] {1})
   = (send (Embed False [(3, Some (MonthDay 1 2), [(1, WillTurn 24)])])
        (example_bot [(1, \<lparr>bday_year = Some 2000, bday_month = 1, bday_day = 2\<rparr>)] {1}), None)
   \<and> map_sum id toordinal (datetime_ymd 2025 1 2) = Inr (toordinal (at_noon 2024 12 30) + 3)
   \<and> (2025 :: int) - 2000 \<noteq> 24"
  by (simp add: eval_defs)

subsection \<open>The window of \<^verbatim>\<open>upcoming\<close>\<close>

text \<open>
  C2, as stated, fails: with a window of 0 days the command does not list the members whose
  birthday is today. Member 2 has their birthday on the day of the call, and the reply is
  the request for a number of days between 1 and 365.
\<close>

theorem upcoming_window_zero_counterexample:
  "today_exact (at_noon 2024 12 30) (all_members two_members) = [2] \<and>
   upcoming 0 (at_noon 2024 12 30) two_members = (send DaysRange two_members, None) \<and>
   map fst (today_field (last (sent (fst (upcoming 0 (at_noon 2024 12 30) two_members))))) = []"
  by (simp add: two_members_def eval_defs)

text \<open>
  C2, amended. A window of 0 days is turned away with the message about the number of days,
  whatever is stored. The members whose birthday is today are instead the group with key 0 of
  a call with a window from 1 to 365: when such a call ends without an exception, that group
  holds exactly the members found in the guild whose stored month and day are today's, in
  the order of the store, and it is empty when there is none.
\<close>

theorem upcoming_window_zero_rejected:
  "upcoming 0 utcnow s = (send DaysRange s, None) \<and>
   (1 \<le> days \<and> days \<le> 365 \<and> valid_date utcnow \<and> upcoming days utcnow s = (s', None) \<longrightarrow>
      map fst (today_field (last (sent s'))) =
        today_exact utcnow (filter (\<lambda>(member_id, data). member_id \<in> guild_members s) (all_members s)))"
proof (intro conjI impI)
  show "upcoming 0 utcnow s = (send DaysRange s, None)" by (simp add: upcoming_def)
next
  assume a: "1 \<le> days \<and> days \<le> 365 \<and> valid_date utcnow \<and> upcoming days utcnow s = (s', None)"
  let ?want = "today_exact utcnow (filter (\<lambda>(member_id, data). member_id \<in> guild_members s) (all_members s))"
  have want: "map fst (today_lines [] @
           map (\<lambda>(mid, data). (mid, turns_text (replace_midnight utcnow) data))
             (filter (\<lambda>(mid, data). mid \<in> guild_members s \<and> is_today (replace_midnight utcnow) data) (all_members s)))
           = ?want"
    by (simp add: today_exact_def today_lines_def case_prod_unfold comp_def conj_commute)
  from a have "upcoming days utcnow s = (s', None)" by simp
  then show "map fst (today_field (last (sent s'))) = ?want"
  proof (cases rule: upcoming_cases)
    case range
    with a show ?thesis by simp
  next
    case (none ndm)
    from loop_today_lines [OF none(3)] a have
      "today_lines [] = today_lines [] @
           map (\<lambda>(mid, data). (mid, turns_text (replace_midnight utcnow) data))
             (filter (\<lambda>(mid, data). mid \<in> guild_members s \<and> is_today (replace_midnight utcnow) data) (all_members s))"
      by simp
    with want have "?want = []" by (simp add: today_lines_def)
    with none show ?thesis by (simp add: today_field_def)
  next
    case (embed pb ndm)
    have d: "distinct (map fst pb)" by (rule loop_distinct_keys [OF embed(3)]) simp
    from loop_today_lines [OF embed(3)] a have
      "today_lines pb = today_lines [] @
           map (\<lambda>(mid, data). (mid, turns_text (replace_midnight utcnow) data))
             (filter (\<lambda>(mid, data). mid \<in> guild_members s \<and> is_today (replace_midnight utcnow) data) (all_members s))"
      by simp
    with want have "map fst (today_lines pb) = ?want" by simp
    with embed d show ?thesis by (simp add: today_field_embed_of)
  qed
qed

text \<open>
  The amended C2 at a window of 7 days on 2024-12-30, with the two sample members.
\<close>

theorem upcoming_window_zero_rejected_witness:
  "(1::int) \<le> 7 \<and> (7::int) \<le> 365 \<and> valid_date (at_noon 2024 12 30) \<and>
   snd (upcoming 7 (at_noon 2024 12 30) two_members) = None \<and>
   upcoming 0 (at_noon 2024 12 30) two_members = (send DaysRange two_members, None) \<and>
   map fst (today_field (last (sent (fst (upcoming 7 (at_noon 2024 12 30) two_members))))) = [2] \<and>
   today_exact (at_noon 2024 12 30)
     (filter (\<lambda>(member_id, data). member_id \<in> guild_members two_members) (all_members two_members)) = [2]"
proof -
  have v: "valid_date (at_noon 2024 12 30)" by (simp add: eval_defs)
  have t: "today_exact (at_noon 2024 12 30)
     (filter (\<lambda>(member_id, data). member_id \<in> guild_members two_members) (all_members two_members)) = [2]"
    by (simp add: two_members_def eval_defs)
  from upcoming_window_zero_rejected
         [of "at_noon 2024 12 30" two_members 7 "fst (upcoming 7 (at_noon 2024 12 30) two_members)"]
       upcoming_two_members v t
  show ?thesis by simp
qed

text \<open>
  C3. In every listing the command sends, the key of each field, the number of days until
  the birthdays in it, lies between 0 and the window, and no member is on two lines. The
  instant of the call is a date of the calendar, and the store, a dictionary, has one entry
  per member.
\<close>

theorem upcoming_days_until_in_window:
  assumes "upcoming days utcnow s = (send (Embed too_many flds) s, None)"
    and "valid_date utcnow" "distinct (map fst (all_members s))"
  shows "(\<forall>(d, name, members) \<in> set flds. 0 \<le> d \<and> d \<le> days) \<and>
         distinct (map fst (field_lines flds))"
  using assms(1)
proof (cases rule: upcoming_cases)
  case range
  then show ?thesis by simp
next
  case (none ndm)
  then show ?thesis by simp
next
  case (embed pb ndm)
  then have flds: "flds = embed_of pb ndm" by simp
  note loop = embed(3)
  have "\<forall>k\<in>fst ` set pb. 0 \<le> k \<and> k \<le> days"
    using loop assms(2) embed(1) by (intro loop_keys [OF loop]) simp_all
  then have keys: "\<forall>(d, name, members) \<in> set flds. 0 \<le> d \<and> d \<le> days"
    by (force simp: flds embed_of_def)
  have "distinct (map fst (all_lines pb))"
    using assms(3) by (intro loop_distinct_members [OF loop]) (simp_all add: all_lines_def)
  moreover have "mset (map fst (field_lines flds)) = mset (map fst (all_lines pb))"
    using arg_cong [OF mset_all_lines_sort [of fst pb], of "image_mset fst"]
    by (simp add: flds field_lines_embed_of)
  ultimately have "distinct (map fst (field_lines flds))"
    using mset_eq_imp_distinct_iff by blast
  with keys show ?thesis by simp
qed

text \<open>
  C3 on 2024-12-30 with a window of 7 days and the two sample members.
\<close>

theorem upcoming_days_until_in_window_witness:
  "upcoming 7 (at_noon 2024 12 30) two_members =
     (send (Embed False [(0, Some Today, [(2, NoAge)]),
                         (3, Some (MonthDay 1 2), [(1, WillTurn 24)])]) two_members, None) \<and>
   valid_date (at_noon 2024 12 30) \<and> distinct (map fst (all_members two_members)) \<and>
   list_all (\<lambda>(d, name, members). 0 \<le> d \<and> d \<le> 7)
     [(0 :: int, Some Today, [(2 :: nat, NoAge)]), (3, Some (MonthDay 1 2), [(1, WillTurn 24)])] \<and>
   distinct (map fst (field_lines
     [(0, Some Today, [(2, NoAge)]), (3, Some (MonthDay 1 2), [(1, WillTurn 24)])]))"
proof -
  have v: "valid_date (at_noon 2024 12 30)" by (simp add: eval_defs)
  have d: "distinct (map fst (all_members two_members))" by (simp add: two_members_def example_bot_def)
  from upcoming_days_until_in_window [OF upcoming_two_members v d] upcoming_two_members v d
  show ?thesis by (simp add: list_all_iff)
qed

subsection \<open>Birthdays that are today\<close>

text \<open>
  C4, as stated, fails: a record whose month and day are today's does not always put its
  member in the group of today. The member of the record below has left the guild; the
  loop passes over the record and the reply is that there are no upcoming birthdays.
\<close>

theorem birthday_today_counterexample:
  "(1, \<lparr>bday_year = None, bday_month = 12, bday_day = 30\<rparr>) \<in> set (all_members departed_member) \<and>
   is_today (at_noon 2024 12 30) \<lparr>bday_year = None, bday_month = 12, bday_day = 30\<rparr> \<and>
   upcoming 7 (at_noon 2024 12 30) departed_member = (send NoUpcoming departed_member, None) \<and>
   1 \<notin> fst ` set (today_field (last (sent (fst (upcoming 7 (at_noon 2024 12 30) departed_member)))))"
  by (simp add: departed_member_def eval_defs)

text \<open>
  C4, amended. When \<^verbatim>\<open>upcoming\<close>, called with a window from 1 to 365, ends without
  an exception, every record of a member found in the guild whose month and day are today's
  puts that member in the field with key 0, named Today, with the age
  \<open>year today - stored year\<close> when the year is known and no age otherwise. In
  particular the record (month 2, day 29, year 2000) on 2024-02-29 is listed as turning 24.
\<close>

theorem birthday_today_listed:
  "(upcoming days utcnow s = (s', None) \<and> 1 \<le> days \<and> days \<le> 365 \<and> valid_date utcnow \<and>
    (member_id, data) \<in> set (all_members s) \<and> member_id \<in> guild_members s \<and>
    is_today utcnow data \<longrightarrow>
      (\<exists>too_many flds members. s' = send (Embed too_many flds) s \<and>
         (0, Some Today, members) \<in> set flds \<and>
         (member_id, turns_text utcnow data) \<in> set members))
   \<and> upcoming 7 (at_noon 2024 2 29)
         (example_bot [(1, \<lparr>bday_year = Some 2000, bday_month = 2, bday_day = 29\<rparr>)] {1})
       = (send (Embed False [(0, Some Today, [(1, Turns 24)])])
            (example_bot [(1, \<lparr>bday_year = Some 2000, bday_month = 2, bday_day = 29\<rparr>)] {1}),
          None)"
proof (intro conjI impI)
  assume a: "upcoming days utcnow s = (s', None) \<and> 1 \<le> days \<and> days \<le> 365 \<and> valid_date utcnow \<and>
    (member_id, data) \<in> set (all_members s) \<and> member_id \<in> guild_members s \<and>
    is_today utcnow data"
  let ?today = "replace_midnight utcnow"
  let ?listed = "map (\<lambda>(mid, data). (mid, turns_text ?today data))
             (filter (\<lambda>(mid, data). mid \<in> guild_members s \<and> is_today ?today data) (all_members s))"
  have mem: "(member_id, turns_text utcnow data) \<in> set ?listed"
    using a by (force simp: image_iff)
  from a have "upcoming days utcnow s = (s', None)" by simp
  then show "\<exists>too_many flds members. s' = send (Embed too_many flds) s \<and>
         (0, Some Today, members) \<in> set flds \<and>
         (member_id, turns_text utcnow data) \<in> set members"
  proof (cases rule: upcoming_cases)
    case range
    with a show ?thesis by simp
  next
    case (none ndm)
    from loop_today_lines [OF none(3)] a have e: "?listed = []"
      by (simp add: today_lines_def)
    from mem show ?thesis unfolding e by simp
  next
    case (embed pb ndm)
    from loop_today_lines [OF embed(3)] a have t: "today_lines pb = ?listed"
      by (simp add: today_lines_def)
    with mem have in_today: "(member_id, turns_text utcnow data) \<in> set (today_lines pb)" by simp
    then obtain members where m: "map_of pb 0 = Some members" "today_lines pb = members"
      by (cases "map_of pb 0") (simp_all add: today_lines_def)
    have "map_of [] (0::int) \<noteq> None \<longrightarrow> (Map.empty :: int \<rightharpoonup> field_name) 0 = Some Today" by simp
    from loop_today_name [OF embed(3) _ _ _ this] a m have n: "ndm 0 = Some Today" by simp
    from m(1) have "(0, members) \<in> set (sort_key fst pb)" by (simp add: map_of_SomeD)
    then have "(0, ndm 0, members) \<in> set (embed_of pb ndm)"
      by (force simp: embed_of_def)
    with n in_today m(2) embed(5) show ?thesis by auto
  qed
next
  show "upcoming 7 (at_noon 2024 2 29)
         (example_bot [(1, \<lparr>bday_year = Some 2000, bday_month = 2, bday_day = 29\<rparr>)] {1})
       = (send (Embed False [(0, Some Today, [(1, Turns 24)])])
            (example_bot [(1, \<lparr>bday_year = Some 2000, bday_month = 2, bday_day = 29\<rparr>)] {1}),
          None)"
    by (simp add: eval_defs)
qed

text \<open>
  The amended C4 for member 2 of the sample guild on 2024-12-30.
\<close>

theorem birthday_today_listed_witness:
  "snd (upcoming 7 (at_noon 2024 12 30) two_members) = None \<and>
   (2, \<lparr>bday_year = None, bday_month = 12, bday_day = 30\<rparr>) \<in> set (all_members two_members) \<and>
   2 \<in> guild_members two_members \<and>
   is_today (at_noon 2024 12 30) \<lparr>bday_year = None, bday_month = 12, bday_day = 30\<rparr> \<and>
   (\<exists>too_many flds members.
      fst (upcoming 7 (at_noon 2024 12 30) two_members) = send (Embed too_many flds) two_members \<and>
      (0, Some Today, members) \<in> set flds \<and> (2, NoAge) \<in> set members)"
proof -
  have v: "valid_date (at_noon 2024 12 30)" by (simp add: eval_defs)
  have m: "(2, \<lparr>bday_year = None, bday_month = 12, bday_day = 30\<rparr>) \<in> set (all_members two_members)"
    "2 \<in> guild_members two_members"
    "is_today (at_noon 2024 12 30) \<lparr>bday_year = None, bday_month = 12, bday_day = 30\<rparr>"
    "turns_text (at_noon 2024 12 30) \<lparr>bday_year = None, bday_month = 12, bday_day = 30\<rparr> = NoAge"
    by (simp_all add: two_members_def eval_defs turns_text_def stored_year_def)
  from birthday_today_listed
         [of 7 "at_noon 2024 12 30" two_members "fst (upcoming 7 (at_noon 2024 12 30) two_members)"
             2 "\<lparr>bday_year = None, bday_month = 12, bday_day = 30\<rparr>"]
       upcoming_two_members v m
  show ?thesis by simp
qed

text \<open>
  C5. A number of days below 1 or above 365 is answered with the message about the range
  and nothing else: the state is the one before the call with that message added, so the
  stored birthdays and the settings are untouched, and the reply does not depend on them.
\<close>

theorem upcoming_out_of_range:
  "days < 1 \<or> 365 < days \<Longrightarrow> upcoming days utcnow s = (send DaysRange s, None)"
  by (auto simp: upcoming_def)

text \<open>
  C5 at a window of 0 days.
\<close>

theorem upcoming_out_of_range_witness:
  "((0::int) < 1 \<or> (365::int) < 0) \<and>
   upcoming 0 (at_noon 2024 12 30) two_members = (send DaysRange two_members, None) \<and>
   all_members (fst (upcoming 0 (at_noon 2024 12 30) two_members)) = all_members two_members \<and>
   conf (fst (upcoming 0 (at_noon 2024 12 30) two_members)) = conf two_members"
  using upcoming_out_of_range [of 0 "at_noon 2024 12 30" two_members] by (simp add: send_def)

subsection \<open>The stored time of day\<close>

text \<open>
  What \<^verbatim>\<open>interactive\<close> stores for a time of day that exists: the seconds since
  midnight, minutes and seconds of the answer included, so a value from 0 to 86399. Only a
  fraction of a second is dropped.
\<close>

lemma interactive_time_of_day:
  assumes "0 \<le> hour ret_time" "hour ret_time < 24" "0 \<le> minute ret_time" "minute ret_time < 60"
    "0 \<le> second ret_time" "second ret_time < 60"
    "0 \<le> microsecond ret_time" "microsecond ret_time < 1000000"
  shows "\<exists>t. time_utc_s (conf (interactive_finish ret_time now w wo c r s)) = Some t \<and>
           t = hour ret_time * 3600 + minute ret_time * 60 + second ret_time \<and> 0 \<le> t \<and> t < 86400"
proof -
  let ?sod = "hour ret_time * 3600 + minute ret_time * 60 + second ret_time"
  have sod: "0 \<le> ?sod" "?sod < 86400" using assms by auto
  have "dt_sub (replace_ymd_1 ret_time) (midnight_of now) = ?sod * 1000000 + microsecond ret_time"
    by (simp add: dt_sub_def replace_ymd_1_def midnight_of_def replace_midnight_def
          toordinal_def seconds_of_day_def)
  moreover have "(?sod * 1000000 + microsecond ret_time) div 1000000 = ?sod"
    using assms(7,8) by (simp add: div_pos_pos_trivial)
  moreover have "0 \<le> ?sod * 1000000 + microsecond ret_time" using sod assms(7) by simp
  ultimately have "int_total_seconds (dt_sub (replace_ymd_1 ret_time) (midnight_of now)) = ?sod"
    by (simp only: int_total_seconds_def if_True)
  then show ?thesis using sod by (simp add: interactive_finish_def Let_def send_def)
qed

text \<open>
  C6. The claim: the stored time of day is a multiple of 60, seconds being truncated. The
  answer 07:30:15 to the last question of \<^verbatim>\<open>interactive\<close> is stored as 27015 seconds,
  which is not a multiple of 60.
\<close>

theorem interactive_keeps_seconds:
  "time_utc_s (conf (interactive_finish
      \<lparr>year = 2024, month = 3, day = 1, hour = 7, minute = 30, second = 15, microsecond = 0\<rparr>
      (at_noon 2024 3 1) ''a'' ''b'' 1 2 (example_bot [] {}))) = Some 27015 \<and> \<not> (60::int) dvd 27015"
  by (simp add: eval_defs interactive_finish_def replace_ymd_1_def midnight_of_def
        int_total_seconds_def)

subsection \<open>Setting a birthday\<close>

text \<open>
  C7. A birthday whose year is given (it is not the year 1 that stands for no year) and lies
  below the minimum is refused by \<^verbatim>\<open>set\<close> and by \<^verbatim>\<open>force\<close>: the message is sent
  and the stored birthdays stay as they were. Whenever either command changes the stored
  birthdays, the year was not given or is at least the minimum.
\<close>

theorem set_rejects_early_year:
  "(year birthday \<noteq> 1 \<and> year birthday < MIN_BDAY_YEAR \<longrightarrow>
      set_cmd MIN_BDAY_YEAR author birthday utcnow s = (send (TooEarly MIN_BDAY_YEAR) s, None) \<and>
      force MIN_BDAY_YEAR user birthday utcnow s = (send (ForceTooEarly MIN_BDAY_YEAR) s, None) \<and>
      all_members (send (TooEarly MIN_BDAY_YEAR) s) = all_members s \<and>
      all_members (send (ForceTooEarly MIN_BDAY_YEAR) s) = all_members s)
   \<and> (all_members (fst (set_cmd MIN_BDAY_YEAR author birthday utcnow s)) \<noteq> all_members s \<longrightarrow>
        year birthday = 1 \<or> MIN_BDAY_YEAR \<le> year birthday)
   \<and> (all_members (fst (force MIN_BDAY_YEAR user birthday utcnow s)) \<noteq> all_members s \<longrightarrow>
        year birthday = 1 \<or> MIN_BDAY_YEAR \<le> year birthday)"
  by (auto simp: set_cmd_def force_def send_def)

text \<open>
  C7 for a birthday in 1850 with the minimum 1900.
\<close>

theorem set_rejects_early_year_witness:
  "year (at_noon 1850 6 1) \<noteq> 1 \<and> year (at_noon 1850 6 1) < 1900 \<and>
   set_cmd 1900 1 (at_noon 1850 6 1) (at_noon 2024 12 30) two_members
     = (send (TooEarly 1900) two_members, None) \<and>
   force 1900 1 (at_noon 1850 6 1) (at_noon 2024 12 30) two_members
     = (send (ForceTooEarly 1900) two_members, None) \<and>
   all_members (send (TooEarly 1900) two_members) = all_members two_members"
  using set_rejects_early_year [of "at_noon 1850 6 1" 1900 1 "at_noon 2024 12 30" two_members 1]
  by (simp add: at_noon_def)

subsection \<open>The twenty-ninth of February\<close>

text \<open>
  When no record of a member in the guild is a 29 February (each is a date of a common
  year) and the year of the call is not the last one of the calendar, the command ends
  without an exception.
\<close>

lemma upcoming_no_exception:
  assumes "\<forall>(mid, data) \<in> set (all_members s). mid \<in> guild_members s \<longrightarrow> common_year_date data"
    and "valid_date utcnow" "year utcnow < 9999"
  shows "snd (upcoming days utcnow s) = None"
proof -
  from upcoming_loop_total [OF assms(1), of "replace_midnight utcnow" days "[]" Map.empty] assms(2,3)
  obtain r where "upcoming_loop (replace_midnight utcnow) days (guild_members s) (all_members s) [] Map.empty = Inr r"
    by auto
  then show ?thesis by (cases r) (simp add: upcoming_def)
qed

text \<open>
  C8. The claim: \<^verbatim>\<open>upcoming\<close> never ends in an exception, a record of 29 February
  included. \<^verbatim>\<open>set\<close> stores 29 February 2000; on 2024-03-01 the command then ends in
  \<^verbatim>\<open>ValueError\<close>, raised by \<^verbatim>\<open>replace(year=2025)\<close>. A record of 29 February
  without a year raises already in the constructor, with the year 1, on every day.
\<close>

theorem upcoming_leap_day_raises:
  "set_cmd 1900 1
     \<lparr>year = 2000, month = 2, day = 29, hour = 0, minute = 0, second = 0, microsecond = 0\<rparr>
     (at_noon 2024 3 1) (example_bot [] {1})
   = (send (BirthdaySet 2 29 (Some 2000))
        (example_bot [(1, \<lparr>bday_year = Some 2000, bday_month = 2, bday_day = 29\<rparr>)] {1}), None)
   \<and> upcoming 7 (at_noon 2024 3 1)
        (example_bot [(1, \<lparr>bday_year = Some 2000, bday_month = 2, bday_day = 29\<rparr>)] {1})
     = (example_bot [(1, \<lparr>bday_year = Some 2000, bday_month = 2, bday_day = 29\<rparr>)] {1},
        Some ValueError)
   \<and> upcoming 7 (at_noon 2024 2 29)
        (example_bot [(1, \<lparr>bday_year = None, bday_month = 2, bday_day = 29\<rparr>)] {1})
     = (example_bot [(1, \<lparr>bday_year = None, bday_month = 2, bday_day = 29\<rparr>)] {1},
        Some ValueError)"
  by (simp add: eval_defs set_cmd_def bday_of_def)

subsection \<open>The message templates\<close>

text \<open>
  C9. After \<^verbatim>\<open>msgwithoutyear\<close> and after \<^verbatim>\<open>msgwithyear\<close> the stored template
  is the message given, whatever its length and whether or not the preview can be formatted;
  a message longer than the maximum is first answered with the complaint about its length,
  and then stored and confirmed all the same.
\<close>

theorem long_message_still_stored:
  "message_wo_year (conf (fst (msgwithoutyear MAX_BDAY_MSG_LEN format_bday_message author msg s)))
     = Some msg
   \<and> message_w_year (conf (fst (msgwithyear MAX_BDAY_MSG_LEN format_bday_message author msg s)))
     = Some msg
   \<and> (MAX_BDAY_MSG_LEN < length msg \<longrightarrow>
        (\<exists>rest. sent (fst (msgwithoutyear MAX_BDAY_MSG_LEN format_bday_message author msg s))
                  = sent s @ MsgTooLong # MsgSet # rest) \<and>
        (\<exists>rest. sent (fst (msgwithyear MAX_BDAY_MSG_LEN format_bday_message author msg s))
                  = sent s @ MsgTooLong # MsgSetYear # rest))"
  by (auto simp: msgwithoutyear_def msgwithyear_def send_def Let_def split: sum.splits)

text \<open>
  C9 for a message of five characters with a maximum of three.
\<close>

theorem long_message_still_stored_witness:
  "(3::nat) < length ''Happy'' \<and>
   message_wo_year (conf (fst (msgwithoutyear 3 (\<lambda>m a y. Inr m) 1 ''Happy'' two_members))) = Some ''Happy'' \<and>
   message_w_year (conf (fst (msgwithyear 3 (\<lambda>m a y. Inr m) 1 ''Happy'' two_members))) = Some ''Happy'' \<and>
   (\<exists>rest. sent (fst (msgwithoutyear 3 (\<lambda>m a y. Inr m) 1 ''Happy'' two_members))
              = sent two_members @ MsgTooLong # MsgSet # rest) \<and>
   (\<exists>rest. sent (fst (msgwithyear 3 (\<lambda>m a y. Inr m) 1 ''Happy'' two_members))
              = sent two_members @ MsgTooLong # MsgSetYear # rest)"
  using long_message_still_stored [of 3 "\<lambda>m a y. Inr m" 1 "''Happy''" two_members]
  by simp

subsection \<open>Waiting for a button\<close>

text \<open>
  C10, as stated, fails: \<^verbatim>\<open>ValueError\<close> is not raised only for an empty list. A list of
  one button with the row 7, and a list of 26 buttons, both end in \<^verbatim>\<open>ValueError\<close>,
  raised by the button library after the view has been made (and, in the second case, after
  25 buttons have been added).
\<close>

theorem wait_for_press_counterexample:
  "wait_for_press 1 [\<lparr>ref = Some (7::nat), style = 1, label = ''Yes'', row = Some 7\<rparr>] [[(1, 0)]]
     = ([ViewMade 1], Inl ValueError) \<and>
   wait_for_press 1
       (replicate 26 \<lparr>ref = Some (7::nat), style = 1, label = ''Yes'', row = None\<rparr>) [[(1, 0)]]
     = (ViewMade 1 #
          map ButtonAdded (replicate 25 \<lparr>ref = Some 7, style = 1, label = ''Yes'', row = None\<rparr>),
        Inl ValueError)"
  by (simp add: wait_for_press_def new_button_def add_item_def eval_nat_numeral)

text \<open>
  C10, amended. \<^verbatim>\<open>wait_for_press\<close> raises \<^verbatim>\<open>ValueError\<close> when the list of items is
  empty, and then before it has made a view or sent a message. For a list that is not empty
  a \<^verbatim>\<open>ValueError\<close> comes only from the button library while the buttons are added:
  the view has been made, some buttons may have been added, and no message has been sent.
  A list of 1 to 25 items that name no row raises no \<^verbatim>\<open>ValueError\<close>.
\<close>

theorem wait_for_press_ValueError:
  "(items = [] \<longrightarrow> wait_for_press ctx_author items presses = ([], Inl ValueError)) \<and>
   (items \<noteq> [] \<and> snd (wait_for_press ctx_author items presses) = Inl ValueError \<longrightarrow>
      (\<exists>bs. fst (wait_for_press ctx_author items presses) = ViewMade ctx_author # map ButtonAdded bs)) \<and>
   (items \<noteq> [] \<and> length items \<le> 25 \<and> no_rows items \<longrightarrow>
      snd (wait_for_press ctx_author items presses) \<noteq> Inl ValueError)"
proof (intro conjI impI)
  show "wait_for_press ctx_author items presses = ([], Inl ValueError)" if "items = []"
    using that by (simp add: wait_for_press_def)
next
  let ?view = "\<lparr>author_id = ctx_author, children = [], weights = [0, 0, 0, 0, 0],
                    view_ref = None, stopped = False\<rparr> :: 'a PredView"
  assume a: "items \<noteq> [] \<and> snd (wait_for_press ctx_author items presses) = Inl ValueError"
  obtain view steps e where ai: "add_items items (?view, [ViewMade ctx_author]) = ((view, steps), e)"
    by (metis surj_pair)
  from add_items_steps [OF ai] obtain bs where bs: "steps = [ViewMade ctx_author] @ map ButtonAdded bs"
    by blast
  show "\<exists>bs. fst (wait_for_press ctx_author items presses) = ViewMade ctx_author # map ButtonAdded bs"
  proof (cases e)
    case None
    with a ai show ?thesis
      by (auto simp: wait_for_press_def split: prod.splits option.splits dest: press_wait_error)
  next
    case (Some e1)
    with a ai bs show ?thesis by (auto simp: wait_for_press_def)
  qed
next
  let ?view = "\<lparr>author_id = ctx_author, children = [], weights = [0, 0, 0, 0, 0],
                    view_ref = None, stopped = False\<rparr> :: 'a PredView"
  assume a: "items \<noteq> [] \<and> length items \<le> 25 \<and> no_rows items"
  have "room ?view" by (simp add: room_def)
  with a have "snd (add_items items (?view, [ViewMade ctx_author])) = None"
    by (intro add_items_no_rows) simp_all
  with a show "snd (wait_for_press ctx_author items presses) \<noteq> Inl ValueError"
    by (auto simp: wait_for_press_def split: prod.splits option.splits dest: press_wait_error)
qed

text \<open>
  The amended C10 for the empty list, for a button with the row 7 and for a button with no
  row.
\<close>

theorem wait_for_press_ValueError_witness:
  "wait_for_press 1 ([] :: nat PredItem list) [[(1, 0)]] = ([], Inl ValueError) \<and>
   snd (wait_for_press 1 [\<lparr>ref = Some (7::nat), style = 1, label = ''Yes'', row = Some 7\<rparr>] [[(1, 0)]])
     = Inl ValueError \<and>
   (\<exists>bs. fst (wait_for_press 1 [\<lparr>ref = Some (7::nat), style = 1, label = ''Yes'', row = Some 7\<rparr>]
                  [[(1, 0)]]) = ViewMade 1 # map ButtonAdded bs) \<and>
   no_rows [\<lparr>ref = Some (7::nat), style = 1, label = ''Yes'', row = None\<rparr>] \<and>
   snd (wait_for_press 1 [\<lparr>ref = Some (7::nat), style = 1, label = ''Yes'', row = None\<rparr>] [[(1, 0)]])
     \<noteq> Inl ValueError"
proof -
  have e: "snd (wait_for_press 1 [\<lparr>ref = Some (7::nat), style = 1, label = ''Yes'', row = Some 7\<rparr>] [[(1, 0)]])
     = Inl ValueError"
    by (simp add: wait_for_press_def new_button_def)
  have n: "no_rows [\<lparr>ref = Some (7::nat), style = 1, label = ''Yes'', row = None\<rparr>]"
    by (simp add: no_rows_def)
  from wait_for_press_ValueError [of "[] :: nat PredItem list" 1 "[[(1, 0)]]"]
       wait_for_press_ValueError
         [of "[\<lparr>ref = Some (7::nat), style = 1, label = ''Yes'', row = Some 7\<rparr>]" 1 "[[(1, 0)]]"]
       wait_for_press_ValueError
         [of "[\<lparr>ref = Some (7::nat), style = 1, label = ''Yes'', row = None\<rparr>]" 1 "[[(1, 0)]]"]
       e n
  show ?thesis by simp
qed

end
